theory Spec2Isabelle
  imports Complex_Main "HOL-Library.Char_ord" "HOL-Library.List_Lexorder"
begin

section \<open>Python values and errors\<close>

text \<open>
  The program is Python 2. Its values are dynamically typed, so the model has one type of
  values. A dict is the list of its items in the dict's iteration order; the instances of
  the two classes of \<^verbatim>\<open>instruments.py\<close> carry their \<^verbatim>\<open>__dict__\<close>.
  One type of strings stands for both \<^verbatim>\<open>str\<close> and \<^verbatim>\<open>unicode\<close>.
\<close>

datatype error =
    ValueError
  | TypeError
  | KeyError string
  | IndexError
  | UnicodeEncodeError
  | UnicodeDecodeError
  | AttributeError
  | SyntaxError

datatype cls = RecordEntryC | RecordC

datatype pyval =
    PNone
  | PBool bool
  | PInt int
  | PFloat real
  | PStr string
  | PList "pyval list"
  | PDict "(string \<times> pyval) list"
  | PObj cls "(string \<times> pyval) list"

type_synonym 'a result = "error + 'a"

definition bind_res :: "'a result \<Rightarrow> ('a \<Rightarrow> 'b result) \<Rightarrow> 'b result" where
  "bind_res r f = (case r of Inl e \<Rightarrow> Inl e | Inr x \<Rightarrow> f x)"

text \<open>A list comprehension whose element expression can raise: the first error wins.\<close>

fun map_res :: "('a \<Rightarrow> 'b result) \<Rightarrow> 'a list \<Rightarrow> 'b list result" where
  "map_res f [] = Inr []"
| "map_res f (x # xs) =
     (case f x of
        Inl e \<Rightarrow> Inl e
      | Inr y \<Rightarrow> (case map_res f xs of Inl e \<Rightarrow> Inl e | Inr ys \<Rightarrow> Inr (y # ys)))"

subsection \<open>Dicts\<close>

text \<open>\<^verbatim>\<open>d[k] = v\<close>: replace the value of a key that is there, add the item otherwise.\<close>

fun dict_set :: "(string \<times> 'v) list \<Rightarrow> string \<Rightarrow> 'v \<Rightarrow> (string \<times> 'v) list" where
  "dict_set [] k v = [(k, v)]"
| "dict_set ((k', v') # d) k v =
     (if k' = k then (k, v) # d else (k', v') # dict_set d k v)"

text \<open>\<^verbatim>\<open>dict(pairs)\<close>: the items are stored one after the other, a later one wins.\<close>

definition py_dict :: "(string \<times> 'v) list \<Rightarrow> (string \<times> 'v) list" where
  "py_dict pairs = foldl (\<lambda>d kv. dict_set d (fst kv) (snd kv)) [] pairs"

text \<open>\<^verbatim>\<open>d[k]\<close> raises KeyError on a key that is not there.\<close>

definition dict_getitem :: "(string \<times> 'v) list \<Rightarrow> string \<Rightarrow> 'v result" where
  "dict_getitem d k = (case map_of d k of None \<Rightarrow> Inl (KeyError k) | Some v \<Rightarrow> Inr v)"

subsection \<open>Strings and integers\<close>

definition startswith :: "string \<Rightarrow> string \<Rightarrow> bool" where
  "startswith s p = (take (length p) s = p)"

definition is_ascii :: "string \<Rightarrow> bool" where
  "is_ascii s = list_all (\<lambda>c. (of_char c :: nat) < 128) s"

text \<open>
  \<^verbatim>\<open>str(k)\<close> of a string read from JSON (a \<^verbatim>\<open>unicode\<close>): encoding with the
  ASCII codec, which raises UnicodeEncodeError on any other character.
\<close>

definition str_of_text :: "string \<Rightarrow> string result" where
  "str_of_text s = (if is_ascii s then Inr s else Inl UnicodeEncodeError)"

definition digit_char :: "nat \<Rightarrow> char" where
  "digit_char n = ''0123456789'' ! n"

function str_nat :: "nat \<Rightarrow> string" where
  "str_nat n = (if n < 10 then [digit_char n] else str_nat (n div 10) @ [digit_char (n mod 10)])"
  by pat_completeness auto
termination
  by (relation "measure id") auto

declare str_nat.simps [simp del]

text \<open>\<^verbatim>\<open>str(n)\<close> and \<^verbatim>\<open>'%i' % n\<close> of an integer: its decimal digits, with a sign.\<close>

definition str_int :: "int \<Rightarrow> string" where
  "str_int i = (if i < 0 then CHR ''-'' # str_nat (nat (- i)) else str_nat (nat i))"

text \<open>The number that a string of decimal digits stands for.\<close>

definition digits_value :: "string \<Rightarrow> nat" where
  "digits_value s = foldl (\<lambda>a c. 10 * a + (of_char c - 48)) 0 s"

text \<open>\<^verbatim>\<open>xs[i]\<close> on a list: from the end when \<open>i\<close> is negative, IndexError out of range.\<close>

definition seq_getitem :: "'a list \<Rightarrow> int \<Rightarrow> 'a result" where
  "seq_getitem xs i =
     (if 0 \<le> i \<and> i < int (length xs) then Inr (xs ! nat i)
      else if i < 0 \<and> - int (length xs) \<le> i then Inr (xs ! nat (int (length xs) + i))
      else Inl IndexError)"

section \<open>The serializable classes\<close>

text \<open>
  What the program takes from the Python runtime and from \<^verbatim>\<open>simplejson\<close> is a
  parameter of the model: the text \<^verbatim>\<open>unicode(data)\<close> of a value, \<^verbatim>\<open>eval\<close>
  of a text, \<^verbatim>\<open>simplejson.dumps\<close> and \<^verbatim>\<open>simplejson.loads\<close>, which raises
  ValueError (the result None) on a text that is not JSON.
\<close>

record runtime =
  rt_unicode :: "pyval \<Rightarrow> string"
  rt_eval :: "string \<Rightarrow> pyval result"
  rt_dumps :: "pyval \<Rightarrow> string result"
  rt_loads :: "string \<Rightarrow> pyval option"

text \<open>\<^verbatim>\<open>__setattr__\<close> and \<^verbatim>\<open>__getattr__\<close> of JSONSerializable, on the \<^verbatim>\<open>__dict__\<close>.\<close>

definition setattr :: "(string \<times> pyval) list \<Rightarrow> string \<Rightarrow> pyval \<Rightarrow> (string \<times> pyval) list" where
  "setattr d attr val = dict_set d (''_k_'' @ attr) val"

definition getattr :: "(string \<times> pyval) list \<Rightarrow> string \<Rightarrow> pyval result" where
  "getattr d attr = dict_getitem d (''_k_'' @ attr)"

text \<open>
  \<^verbatim>\<open>__repr__\<close>, with the \<^verbatim>\<open>get_value\<close> of the instance's class as an argument:
  the dict of the attributes without their prefix, as a text.
\<close>

definition repr_obj :: "runtime \<Rightarrow> (pyval \<Rightarrow> pyval result) \<Rightarrow> (string \<times> pyval) list \<Rightarrow> string result" where
  "repr_obj rt get_value d =
     bind_res
       (map_res (\<lambda>k. bind_res (dict_getitem d k) (\<lambda>v.
                      bind_res (get_value v) (\<lambda>v'. Inr (drop 3 k, v'))))
          (filter (\<lambda>k. startswith k ''_k_'') (map fst d)))
       (\<lambda>pairs. Inr (rt_unicode rt (PDict (py_dict pairs))))"

definition JSONSerializable_get_value :: "pyval \<Rightarrow> pyval result" where
  "JSONSerializable_get_value val = Inr val"

definition JSONSerializable_make_value :: "pyval \<Rightarrow> pyval result" where
  "JSONSerializable_make_value val = Inr val"

text \<open>\<^verbatim>\<open>Record.get_value\<close>: each RecordEntry of a list becomes \<^verbatim>\<open>eval(repr(item))\<close>.\<close>

definition Record_get_value :: "runtime \<Rightarrow> pyval \<Rightarrow> pyval result" where
  "Record_get_value rt val =
     (case val of
        PList items \<Rightarrow>
          bind_res
            (map_res (\<lambda>item.
                case item of
                  PObj RecordEntryC d \<Rightarrow>
                    bind_res (repr_obj rt JSONSerializable_get_value d) (rt_eval rt)
                | _ \<Rightarrow> Inr item) items)
            (\<lambda>new. Inr (PList new))
      | _ \<Rightarrow> Inr val)"

definition get_value :: "runtime \<Rightarrow> cls \<Rightarrow> pyval \<Rightarrow> pyval result" where
  "get_value rt C = (case C of RecordC \<Rightarrow> Record_get_value rt | RecordEntryC \<Rightarrow> JSONSerializable_get_value)"

text \<open>\<^verbatim>\<open>self.EncodeJSON()\<close>; only the instances of the two classes have the method.\<close>

definition EncodeJSON :: "runtime \<Rightarrow> pyval \<Rightarrow> string result" where
  "EncodeJSON rt self =
     (case self of
        PObj C d \<Rightarrow>
          bind_res (repr_obj rt (get_value rt C) d) (\<lambda>text.
          bind_res (rt_eval rt text) (rt_dumps rt))
      | _ \<Rightarrow> Inl AttributeError)"

text \<open>
  The comprehension \<^verbatim>\<open>[(str(k), f(data[k])) for k in data]\<close> of \<^verbatim>\<open>make_args\<close>
  and \<^verbatim>\<open>FromJSON\<close>, where \<open>data\<close> comes from JSON. Iterating a dict gives its keys,
  a list its items, a string its characters; anything else is not iterable.
  \<^verbatim>\<open>str(k)\<close> is evaluated before \<^verbatim>\<open>data[k]\<close>. A list or a string is indexed by
  integers only (a bool is one), so any other \<open>k\<close> raises TypeError there.
\<close>

fun list_pair :: "(pyval \<Rightarrow> pyval result) \<Rightarrow> pyval list \<Rightarrow> pyval \<Rightarrow> (string \<times> pyval) result" where
  "list_pair f xs (PInt i) =
     bind_res (seq_getitem xs i) (\<lambda>v. bind_res (f v) (\<lambda>v'. Inr (str_int i, v')))"
| "list_pair f xs (PBool b) =
     bind_res (seq_getitem xs (if b then 1 else 0)) (\<lambda>v.
     bind_res (f v) (\<lambda>v'. Inr (if b then ''True'' else ''False'', v')))"
| "list_pair f xs (PStr s) = bind_res (str_of_text s) (\<lambda>_. Inl TypeError)"
| "list_pair f xs _ = Inl TypeError"

definition str_pairs :: "(pyval \<Rightarrow> pyval result) \<Rightarrow> pyval \<Rightarrow> (string \<times> pyval) list result" where
  "str_pairs f data =
     (case data of
        PDict d \<Rightarrow>
          map_res (\<lambda>k. bind_res (str_of_text k) (\<lambda>s.
                        bind_res (dict_getitem d k) (\<lambda>v.
                        bind_res (f v) (\<lambda>v'. Inr (s, v'))))) (map fst d)
      | PList xs \<Rightarrow> map_res (list_pair f xs) xs
      | PStr s \<Rightarrow> map_res (\<lambda>c. bind_res (str_of_text [c]) (\<lambda>_. Inl TypeError)) s
      | _ \<Rightarrow> Inl TypeError)"

definition make_args :: "pyval \<Rightarrow> (string \<times> pyval) list result" where
  "make_args args = bind_res (str_pairs Inr args) (\<lambda>pairs. Inr (py_dict pairs))"

text \<open>
  Calling a function with \<^verbatim>\<open>**kwargs\<close>: TypeError unless the keywords are exactly its
  parameters (none has a default); otherwise the arguments in the order of the parameters.
\<close>

definition bind_kwargs :: "string list \<Rightarrow> (string \<times> pyval) list \<Rightarrow> pyval list result" where
  "bind_kwargs params kwargs =
     (if list_all (\<lambda>p. p \<in> set (map fst kwargs)) params
         \<and> list_all (\<lambda>k. k \<in> set params) (map fst kwargs)
      then map_res (dict_getitem kwargs) params
      else Inl TypeError)"

definition RecordEntry_init :: "pyval \<Rightarrow> pyval \<Rightarrow> pyval \<Rightarrow> pyval \<Rightarrow> pyval" where
  "RecordEntry_init module_name name obj_type dominated_size =
     PObj RecordEntryC
       (setattr (setattr (setattr (setattr [] ''module_name'' module_name)
          ''name'' name) ''obj_type'' obj_type) ''dominated_size'' dominated_size)"

definition Record_init :: "pyval \<Rightarrow> pyval" where
  "Record_init entries = PObj RecordC (setattr [] ''entries'' entries)"

text \<open>\<^verbatim>\<open>C(**kwargs)\<close> for the two classes.\<close>

definition new_obj :: "cls \<Rightarrow> (string \<times> pyval) list \<Rightarrow> pyval result" where
  "new_obj C kwargs =
     (case C of
        RecordEntryC \<Rightarrow>
          bind_res (bind_kwargs [''module_name'', ''name'', ''obj_type'', ''dominated_size''] kwargs)
            (\<lambda>args. case args of
               [m, n, t, s] \<Rightarrow> Inr (RecordEntry_init m n t s)
             | _ \<Rightarrow> Inl TypeError)
      | RecordC \<Rightarrow>
          bind_res (bind_kwargs [''entries''] kwargs)
            (\<lambda>args. case args of [e] \<Rightarrow> Inr (Record_init e) | _ \<Rightarrow> Inl TypeError))"

text \<open>\<^verbatim>\<open>Record.make_value\<close>: each item of a list becomes a RecordEntry.\<close>

definition Record_make_value :: "pyval \<Rightarrow> pyval result" where
  "Record_make_value val =
     (case val of
        PList items \<Rightarrow>
          bind_res
            (map_res (\<lambda>item. bind_res (make_args item) (new_obj RecordEntryC)) items)
            (\<lambda>new. Inr (PList new))
      | _ \<Rightarrow> Inr val)"

definition make_value :: "cls \<Rightarrow> pyval \<Rightarrow> pyval result" where
  "make_value C = (case C of RecordC \<Rightarrow> Record_make_value | RecordEntryC \<Rightarrow> JSONSerializable_make_value)"

text \<open>\<^verbatim>\<open>C.FromJSON(json)\<close>.\<close>

definition FromJSON :: "runtime \<Rightarrow> cls \<Rightarrow> string \<Rightarrow> pyval result" where
  "FromJSON rt C json =
     (case rt_loads rt json of
        None \<Rightarrow> Inl ValueError
      | Some data \<Rightarrow>
          bind_res (str_pairs (make_value C) data) (\<lambda>pairs. new_obj C (py_dict pairs)))"

section \<open>Snapshots\<close>

text \<open>
  An entry as the constructor of RecordEntry documents it, and the instance that
  \<^verbatim>\<open>RecordEntry(module_name, name, obj_type, dominated_size)\<close> builds from it.
  A snapshot is \<^verbatim>\<open>Record(entries)\<close> for a list of such instances.
\<close>

record Entry =
  entry_module_name :: string
  entry_name :: string
  entry_obj_type :: string
  entry_dominated_size :: int

definition entry_obj :: "Entry \<Rightarrow> pyval" where
  "entry_obj e =
     RecordEntry_init (PStr (entry_module_name e)) (PStr (entry_name e)) (PStr (entry_obj_type e))
       (PInt (entry_dominated_size e))"

definition snapshot_obj :: "Entry list \<Rightarrow> pyval" where
  "snapshot_obj es = Record_init (PList (map entry_obj es))"

text \<open>The dicts that \<^verbatim>\<open>__repr__\<close> prints for an entry and for a snapshot.\<close>

definition entry_data :: "Entry \<Rightarrow> pyval" where
  "entry_data e =
     PDict [(''module_name'', PStr (entry_module_name e)), (''name'', PStr (entry_name e)),
            (''obj_type'', PStr (entry_obj_type e)), (''dominated_size'', PInt (entry_dominated_size e))]"

definition snapshot_data :: "Entry list \<Rightarrow> pyval" where
  "snapshot_data es = PDict [(''entries'', PList (map entry_data es))]"

text \<open>
  What the round trip needs of the runtime, at one value: \<^verbatim>\<open>eval\<close> reads the printed
  text back, and \<^verbatim>\<open>loads\<close> reads back what \<^verbatim>\<open>dumps\<close> wrote.
\<close>

definition reads_literal :: "runtime \<Rightarrow> pyval \<Rightarrow> bool" where
  "reads_literal rt v = (rt_eval rt (rt_unicode rt v) = Inr v)"

definition reads_json :: "runtime \<Rightarrow> pyval \<Rightarrow> bool" where
  "reads_json rt v =
     (case rt_dumps rt v of Inl _ \<Rightarrow> False | Inr text \<Rightarrow> rt_loads rt text = Some v)"

section \<open>The cache\<close>

text \<open>
  Modelled from the spec: the four primitives of the external cache (App Engine's memcache
  is not part of the repository), as the storage backend contract describes them, each one
  atomic and with no eviction. The cache holds the counter, an integer without a bound, and
  the encoded records, which are strings; \<^verbatim>\<open>incr\<close> fails, with the result None, on a
  key that is absent or holds no integer. The cache also remembers the requests made to it.
\<close>

datatype cval = CInt int | CStr string

datatype call =
    Add string cval
  | Incr string
  | Get string
  | Get_multi "string list" string

record memcache =
  store :: "string \<Rightarrow> cval option"
  calls :: "call list"

definition memcache_add :: "string \<Rightarrow> cval \<Rightarrow> memcache \<Rightarrow> bool \<times> memcache" where
  "memcache_add key val c =
     (case store c key of
        None \<Rightarrow> (True, c\<lparr>store := (store c)(key \<mapsto> val), calls := calls c @ [Add key val]\<rparr>)
      | Some _ \<Rightarrow> (False, c\<lparr>calls := calls c @ [Add key val]\<rparr>))"

definition memcache_incr :: "string \<Rightarrow> memcache \<Rightarrow> int option \<times> memcache" where
  "memcache_incr key c =
     (case store c key of
        Some (CInt n) \<Rightarrow>
          (Some (n + 1), c\<lparr>store := (store c)(key \<mapsto> CInt (n + 1)), calls := calls c @ [Incr key]\<rparr>)
      | _ \<Rightarrow> (None, c\<lparr>calls := calls c @ [Incr key]\<rparr>))"

definition memcache_get :: "string \<Rightarrow> memcache \<Rightarrow> cval option \<times> memcache" where
  "memcache_get key c = (store c key, c\<lparr>calls := calls c @ [Get key]\<rparr>)"

text \<open>The result of \<^verbatim>\<open>get_multi\<close> is a dict of the keys that are there, without the prefix.\<close>

definition memcache_get_multi ::
  "string list \<Rightarrow> string \<Rightarrow> memcache \<Rightarrow> (string \<times> cval) list \<times> memcache" where
  "memcache_get_multi keys key_prefix c =
     (py_dict (List.map_filter (\<lambda>k. map_option (Pair k) (store c (key_prefix @ k))) keys),
      c\<lparr>calls := calls c @ [Get_multi keys key_prefix]\<rparr>)"

section \<open>The recorder\<close>

text \<open>The configuration: \<^verbatim>\<open>get_modules()\<close> and the three constants the recorder reads.\<close>

record config =
  get_modules :: "string list"
  IGNORE_NAMES :: "string list"
  INDEX_KEY :: string
  RECORD_PREFIX :: string

text \<open>
  A live object as \<^verbatim>\<open>trace\<close> sees it: the name \<^verbatim>\<open>obj.__class__.__name__\<close>, which
  is None when the attribute access raises AttributeError (an old-style class object of
  Python 2 has no \<^verbatim>\<open>__class__\<close>), and the size \<^verbatim>\<open>hp.iso(obj).domisize\<close> that the
  heap inspector reports. \<^verbatim>\<open>sys.modules\<close> maps a name to a module, of which only its
  \<^verbatim>\<open>__dict__\<close> matters, or to a value that has none, as the None that Python 2 stores
  under the name of a relative import that failed.
\<close>

record heap_object =
  class_name :: "string option"
  domisize :: int

type_synonym module_dict = "(string \<times> heap_object) list"

type_synonym sys_modules = "(string \<times> module_dict option) list"

text \<open>
  \<^verbatim>\<open>RecordEntry(name, key, obj.__class__.__name__, iso.domisize)\<close>, where
  \<^verbatim>\<open>iso = hp.iso(obj)\<close>.
\<close>

definition make_entry :: "string \<Rightarrow> string \<Rightarrow> heap_object \<Rightarrow> pyval result" where
  "make_entry name key obj =
     (case class_name obj of
        None \<Rightarrow> Inl AttributeError
      | Some obj_type \<Rightarrow>
          Inr (RecordEntry_init (PStr name) (PStr key) (PStr obj_type) (PInt (domisize obj))))"

text \<open>\<^verbatim>\<open>record.entries.append(entry)\<close>\<close>

definition append_entry :: "pyval \<Rightarrow> pyval \<Rightarrow> pyval result" where
  "append_entry rec entry =
     (case rec of
        PObj C d \<Rightarrow>
          bind_res (getattr d ''entries'') (\<lambda>entries.
            case entries of
              PList xs \<Rightarrow> Inr (PObj C (setattr d ''entries'' (PList (xs @ [entry]))))
            | _ \<Rightarrow> Inl AttributeError)
      | _ \<Rightarrow> Inl AttributeError)"

text \<open>The inner loop of \<^verbatim>\<open>trace\<close>, over the sorted keys of one module.\<close>

fun scan_keys :: "string \<Rightarrow> module_dict \<Rightarrow> string list \<Rightarrow> pyval \<Rightarrow> pyval result" where
  "scan_keys name md [] rec = Inr rec"
| "scan_keys name md (key # keys) rec =
     bind_res (dict_getitem md key) (\<lambda>obj.
     bind_res (make_entry name key obj) (\<lambda>entry.
     bind_res (append_entry rec entry) (scan_keys name md keys)))"

text \<open>
  The outer loop, over the configured modules. A name that is not in \<^verbatim>\<open>sys.modules\<close>
  is passed over; for one that is there, \<^verbatim>\<open>sys.modules[name].__dict__\<close> raises
  AttributeError on a value without a \<^verbatim>\<open>__dict__\<close>.
\<close>

fun scan_modules :: "config \<Rightarrow> sys_modules \<Rightarrow> string list \<Rightarrow> pyval \<Rightarrow> pyval result" where
  "scan_modules cfg sys [] rec = Inr rec"
| "scan_modules cfg sys (name # names) rec =
     (case map_of sys name of
        None \<Rightarrow> scan_modules cfg sys names rec
      | Some None \<Rightarrow> Inl AttributeError
      | Some (Some md) \<Rightarrow>
          bind_res
            (scan_keys name md
               (sorted_list_of_set (set (map fst md) - set (IGNORE_NAMES cfg))) rec)
            (scan_modules cfg sys names))"

text \<open>The index of the new record: 1 if the counter can be added, the incremented counter otherwise.\<close>

definition allocate_index :: "config \<Rightarrow> memcache \<Rightarrow> int option \<times> memcache" where
  "allocate_index cfg c =
     (case memcache_add (INDEX_KEY cfg) (CInt 1) c of
        (True, c1) \<Rightarrow> (Some 1, c1)
      | (False, c1) \<Rightarrow> memcache_incr (INDEX_KEY cfg) c1)"

text \<open>\<^verbatim>\<open>str(index)\<close>; \<^verbatim>\<open>incr\<close> returns None when it cannot increment.\<close>

definition str_index :: "int option \<Rightarrow> string" where
  "str_index index = (case index of None \<Rightarrow> ''None'' | Some i \<Rightarrow> str_int i)"

text \<open>
  \<^verbatim>\<open>trace\<close>: the result of the call (it returns None, or raises) and the cache afterwards.
  The record is encoded after the index is allocated and before the second \<^verbatim>\<open>add\<close>.
\<close>

definition trace :: "runtime \<Rightarrow> config \<Rightarrow> sys_modules \<Rightarrow> memcache \<Rightarrow> unit result \<times> memcache" where
  "trace rt cfg sys c =
     (case scan_modules cfg sys (get_modules cfg) (Record_init (PList [])) of
        Inl e \<Rightarrow> (Inl e, c)
      | Inr rec \<Rightarrow>
          (case allocate_index cfg c of
             (index, c1) \<Rightarrow>
               (case EncodeJSON rt rec of
                  Inl e \<Rightarrow> (Inl e, c1)
                | Inr json \<Rightarrow>
                    (Inr (), snd (memcache_add (RECORD_PREFIX cfg @ str_index index) (CStr json) c1)))))"

text \<open>
  A call of \<^verbatim>\<open>trace\<close> reaches the allocation of an index when its scan raises nothing.
\<close>

definition reaches_allocation :: "config \<Rightarrow> sys_modules \<Rightarrow> bool" where
  "reaches_allocation cfg sys =
     (case scan_modules cfg sys (get_modules cfg) (Record_init (PList [])) of
        Inl _ \<Rightarrow> False
      | Inr _ \<Rightarrow> True)"

text \<open>
  Consecutive calls of \<^verbatim>\<open>trace\<close>, one for each state of \<^verbatim>\<open>sys.modules\<close> in the list:
  the indices that the calls allocate, and the cache at the end. A call whose scan raises
  allocates no index; the index another call allocates is the one its allocation step
  computes on the cache the call starts from.
\<close>

fun traces :: "runtime \<Rightarrow> config \<Rightarrow> sys_modules list \<Rightarrow> memcache \<Rightarrow> int option list \<times> memcache" where
  "traces rt cfg [] c = ([], c)"
| "traces rt cfg (sys # rest) c =
     (case traces rt cfg rest (snd (trace rt cfg sys c)) of
        (indices, c') \<Rightarrow>
          (if reaches_allocation cfg sys then (fst (allocate_index cfg c) # indices, c')
           else (indices, c')))"

text \<open>
  \<^verbatim>\<open>get_raw_records\<close>. A counter that is a string is not smaller than the integer
  \<open>limit\<close> in Python 2, and \<^verbatim>\<open>curr_index-i\<close> raises TypeError on it.
\<close>

definition get_raw_records :: "config \<Rightarrow> int \<Rightarrow> int \<Rightarrow> memcache \<Rightarrow> cval list result \<times> memcache" where
  "get_raw_records cfg limit offset c =
     (case memcache_get (INDEX_KEY cfg) c of
        (None, c1) \<Rightarrow> (Inr [], c1)
      | (Some (CInt curr_index), c1) \<Rightarrow>
          if curr_index = 0 then (Inr [], c1)
          else
            (let limit' = (if curr_index < limit then curr_index else limit);
                 keys = map (\<lambda>i. str_int (curr_index - i)) [offset..limit' - 1]
             in case memcache_get_multi keys (RECORD_PREFIX cfg) c1 of
                  (records, c2) \<Rightarrow> (map_res (dict_getitem records) keys, c2))
      | (Some (CStr s), c1) \<Rightarrow>
          if s = [] then (Inr [], c1)
          else if offset < limit then (Inl TypeError, c1)
          else (Inr [], snd (memcache_get_multi [] (RECORD_PREFIX cfg) c1)))"

text \<open>\<^verbatim>\<open>get_records\<close>; \<^verbatim>\<open>simplejson.loads\<close> raises TypeError on a value that is no string.\<close>

definition get_records :: "runtime \<Rightarrow> config \<Rightarrow> int \<Rightarrow> int \<Rightarrow> memcache \<Rightarrow> pyval list result \<times> memcache" where
  "get_records rt cfg limit offset c =
     (case get_raw_records cfg limit offset c of
        (Inl e, c') \<Rightarrow> (Inl e, c')
      | (Inr records, c') \<Rightarrow>
          (map_res (\<lambda>r. case r of CStr json \<Rightarrow> FromJSON rt RecordC json | CInt _ \<Rightarrow> Inl TypeError)
             records, c'))"

text \<open>
  What the spec says one configured module contributes: nothing when it is not loaded,
  otherwise one entry for each attribute name outside the ignore-set, in ascending order
  of the names, with the module name, the attribute name, the name of the object's type
  and its dominated size.
\<close>

definition module_entries :: "config \<Rightarrow> sys_modules \<Rightarrow> string \<Rightarrow> pyval list" where
  "module_entries cfg sys name =
     (case map_of sys name of
        Some (Some md) \<Rightarrow>
          map (\<lambda>key. RecordEntry_init (PStr name) (PStr key)
                  (PStr (the (class_name (the (map_of md key)))))
                  (PInt (domisize (the (map_of md key)))))
            (sorted_list_of_set (set (map fst md) - set (IGNORE_NAMES cfg)))
      | _ \<Rightarrow> [])"

section \<open>Documents\<close>

text \<open>
  The schema in the words of the spec: a document conforms when it has a list
  \<open>entries\<close> and every entry has the four required fields, the three names as strings
  and the size as an integer.
\<close>

definition is_str :: "pyval \<Rightarrow> bool" where
  "is_str v = (case v of PStr _ \<Rightarrow> True | _ \<Rightarrow> False)"

definition is_int :: "pyval \<Rightarrow> bool" where
  "is_int v = (case v of PInt _ \<Rightarrow> True | _ \<Rightarrow> False)"

definition field_is :: "(pyval \<Rightarrow> bool) \<Rightarrow> (string \<times> pyval) list \<Rightarrow> string \<Rightarrow> bool" where
  "field_is T d k = (case map_of d k of None \<Rightarrow> False | Some v \<Rightarrow> T v)"

definition entry_conforms :: "pyval \<Rightarrow> bool" where
  "entry_conforms item =
     (case item of
        PDict d \<Rightarrow> field_is is_str d ''module_name'' \<and> field_is is_str d ''name''
          \<and> field_is is_str d ''obj_type'' \<and> field_is is_int d ''dominated_size''
      | _ \<Rightarrow> False)"

definition schema_conforming :: "pyval \<Rightarrow> bool" where
  "schema_conforming doc =
     (case doc of
        PDict d \<Rightarrow>
          (case map_of d ''entries'' of
             Some (PList items) \<Rightarrow> list_all entry_conforms items
           | _ \<Rightarrow> False)
      | _ \<Rightarrow> False)"

text \<open>
  What the code looks at instead: whether an item is a JSON object (its keys are ASCII),
  and whether its keys are exactly the four parameters of the constructor. The entry it
  builds takes the values of the fields as they are.
\<close>

definition is_object :: "pyval \<Rightarrow> bool" where
  "is_object item = (case item of PDict d \<Rightarrow> list_all is_ascii (map fst d) | _ \<Rightarrow> False)"

definition has_exact_fields :: "pyval \<Rightarrow> bool" where
  "has_exact_fields item =
     (case item of
        PDict d \<Rightarrow>
          list_all (\<lambda>p. p \<in> set (map fst d)) [''module_name'', ''name'', ''obj_type'', ''dominated_size'']
          \<and> list_all (\<lambda>k. k \<in> set [''module_name'', ''name'', ''obj_type'', ''dominated_size''])
               (map fst d)
      | _ \<Rightarrow> False)"

definition field :: "(string \<times> pyval) list \<Rightarrow> string \<Rightarrow> pyval" where
  "field d k = (case map_of d k of None \<Rightarrow> PNone | Some v \<Rightarrow> v)"

definition entry_of_item :: "pyval \<Rightarrow> pyval" where
  "entry_of_item item =
     (case item of
        PDict d \<Rightarrow>
          RecordEntry_init (field d ''module_name'') (field d ''name'') (field d ''obj_type'')
            (field d ''dominated_size'')
      | _ \<Rightarrow> PNone)"

section \<open>Example inputs\<close>

text \<open>
  A runtime that knows finitely many texts: the Python literals of \<open>literals\<close> and the
  JSON documents of \<open>documents\<close>. \<^verbatim>\<open>eval\<close> raises SyntaxError and \<^verbatim>\<open>loads\<close>
  ValueError on any other text, \<^verbatim>\<open>dumps\<close> raises TypeError on any other value.
\<close>

definition table_runtime :: "(pyval \<times> string) list \<Rightarrow> (pyval \<times> string) list \<Rightarrow> runtime" where
  "table_runtime literals documents =
     \<lparr>rt_unicode = (\<lambda>v. case map_of literals v of Some s \<Rightarrow> s | None \<Rightarrow> []),
      rt_eval = (\<lambda>s. case map_of (map prod.swap literals) s of
                        Some v \<Rightarrow> Inr v | None \<Rightarrow> Inl SyntaxError),
      rt_dumps = (\<lambda>v. case map_of documents v of Some s \<Rightarrow> Inr s | None \<Rightarrow> Inl TypeError),
      rt_loads = (\<lambda>s. map_of (map prod.swap documents) s)\<rparr>"

text \<open>The snapshot of the spec's encode example, and a runtime with its texts.\<close>

definition entry_m1 :: Entry where
  "entry_m1 = \<lparr>entry_module_name = ''m1'', entry_name = ''a'', entry_obj_type = ''int'',
               entry_dominated_size = 10\<rparr>"

definition entry_m2 :: Entry where
  "entry_m2 = \<lparr>entry_module_name = ''m2'', entry_name = ''b'', entry_obj_type = ''list'',
               entry_dominated_size = 20\<rparr>"

definition example_runtime :: runtime where
  "example_runtime =
     table_runtime
       [(entry_data entry_m1,
         ''{'module_name': 'm1', 'name': 'a', 'obj_type': 'int', 'dominated_size': 10}''),
        (entry_data entry_m2,
         ''{'module_name': 'm2', 'name': 'b', 'obj_type': 'list', 'dominated_size': 20}''),
        (snapshot_data [entry_m1, entry_m2],
         ''{'entries': [{'module_name': 'm1', 'name': 'a', 'obj_type': 'int', 'dominated_size': 10}, {'module_name': 'm2', 'name': 'b', 'obj_type': 'list', 'dominated_size': 20}]}''),
        (snapshot_data [], ''{'entries': []}'')]
       [(snapshot_data [], ''{\"entries\": []}''),
        (snapshot_data [entry_m1, entry_m2],
         ''{\"entries\": [{\"module_name\": \"m1\", \"name\": \"a\", \"obj_type\": \"int\", \"dominated_size\": 10}, {\"module_name\": \"m2\", \"name\": \"b\", \"obj_type\": \"list\", \"dominated_size\": 20}]}'')]"

text \<open>A configuration, and three states of the cache.\<close>

definition example_config :: config where
  "example_config =
     \<lparr>get_modules = [''m'', ''absent''], IGNORE_NAMES = [''__name__''],
      INDEX_KEY = ''apptrace_index'', RECORD_PREFIX = ''apptrace_record_''\<rparr>"

definition empty_cache :: memcache where
  "empty_cache = \<lparr>store = Map.empty, calls = []\<rparr>"

definition cache_with_gap :: memcache where
  "cache_with_gap =
     \<lparr>store = [''apptrace_index'' \<mapsto> CInt 2, ''apptrace_record_2'' \<mapsto> CStr ''{\"entries\": []}''],
      calls = []\<rparr>"

definition cache_of_two :: memcache where
  "cache_of_two =
     \<lparr>store = [''apptrace_index'' \<mapsto> CInt 2,
               ''apptrace_record_1'' \<mapsto> CStr ''{\"entries\": []}'',
               ''apptrace_record_2'' \<mapsto> CStr ''{\"entries\": [{\"module_name\": \"m1\", \"name\": \"a\", \"obj_type\": \"int\", \"dominated_size\": 10}, {\"module_name\": \"m2\", \"name\": \"b\", \"obj_type\": \"list\", \"dominated_size\": 20}]}''],
      calls = []\<rparr>"

text \<open>The modules of the spec's scan example.\<close>

definition example_modules :: sys_modules where
  "example_modules =
     [(''m'', Some [(''Y'', \<lparr>class_name = Some ''Bar'', domisize = 50\<rparr>),
                    (''__name__'', \<lparr>class_name = Some ''str'', domisize = 0\<rparr>),
                    (''X'', \<lparr>class_name = Some ''Foo'', domisize = 100\<rparr>)])]"

text \<open>
  The same module with an old-style class \<open>Old\<close> among its attributes, and a state of
  \<^verbatim>\<open>sys.modules\<close> that holds None under the configured name.
\<close>

definition old_style_modules :: sys_modules where
  "old_style_modules =
     [(''m'', Some [(''Y'', \<lparr>class_name = Some ''Bar'', domisize = 50\<rparr>),
                    (''__name__'', \<lparr>class_name = Some ''str'', domisize = 0\<rparr>),
                    (''Old'', \<lparr>class_name = None, domisize = 64\<rparr>),
                    (''X'', \<lparr>class_name = Some ''Foo'', domisize = 100\<rparr>)])]"

definition placeholder_modules :: sys_modules where
  "placeholder_modules = [(''m'', None)]"

text \<open>A cache whose counter was evicted after the first record was stored.\<close>

definition cache_after_reset :: memcache where
  "cache_after_reset = \<lparr>store = [''apptrace_record_1'' \<mapsto> CStr ''old''], calls = []\<rparr>"

text \<open>
  Three documents with one entry each: one whose size is a string, one without a size and
  one with a fifth field, and a runtime whose \<^verbatim>\<open>loads\<close> reads their texts.
\<close>

definition mistyped_doc :: pyval where
  "mistyped_doc =
     PDict [(''entries'', PList [PDict [(''module_name'', PStr ''m1''), (''name'', PStr ''a''),
       (''obj_type'', PStr ''int''), (''dominated_size'', PStr ''big'')]])]"

definition missing_doc :: pyval where
  "missing_doc =
     PDict [(''entries'', PList [PDict [(''module_name'', PStr ''m1''), (''name'', PStr ''a''),
       (''obj_type'', PStr ''int'')]])]"

definition extra_doc :: pyval where
  "extra_doc =
     PDict [(''entries'', PList [PDict [(''module_name'', PStr ''m1''), (''name'', PStr ''a''),
       (''obj_type'', PStr ''int''), (''dominated_size'', PInt 10), (''note'', PStr ''x'')]])]"

definition mistyped_text :: string where
  "mistyped_text = ''{\"entries\": [{\"module_name\": \"m1\", \"name\": \"a\", \"obj_type\": \"int\", \"dominated_size\": \"big\"}]}''"

definition missing_text :: string where
  "missing_text = ''{\"entries\": [{\"module_name\": \"m1\", \"name\": \"a\", \"obj_type\": \"int\"}]}''"

definition extra_text :: string where
  "extra_text = ''{\"entries\": [{\"module_name\": \"m1\", \"name\": \"a\", \"obj_type\": \"int\", \"dominated_size\": 10, \"note\": \"x\"}]}''"

definition codec_runtime :: runtime where
  "codec_runtime =
     table_runtime []
       [(mistyped_doc, mistyped_text), (missing_doc, missing_text), (extra_doc, extra_text)]"

section \<open>Shared facts\<close>

lemma bind_res_simps [simp]:
  "bind_res (Inl e) f = Inl e"
  "bind_res (Inr x) f = f x"
  by (simp_all add: bind_res_def)

lemma ascii_names:
  "is_ascii ''entries''"
  "is_ascii ''module_name''"
  "is_ascii ''name''"
  "is_ascii ''obj_type''"
  "is_ascii ''dominated_size''"
  "is_ascii ''note''"
  by (simp_all add: is_ascii_def)

lemma entry_obj_eq:
  "entry_obj e =
     PObj RecordEntryC
       [(''_k_module_name'', PStr (entry_module_name e)), (''_k_name'', PStr (entry_name e)),
        (''_k_obj_type'', PStr (entry_obj_type e)),
        (''_k_dominated_size'', PInt (entry_dominated_size e))]"
  by (simp add: entry_obj_def RecordEntry_init_def setattr_def)

lemma repr_entry:
  "repr_obj rt JSONSerializable_get_value
     [(''_k_module_name'', m), (''_k_name'', n), (''_k_obj_type'', t), (''_k_dominated_size'', s)]
   = Inr (rt_unicode rt
       (PDict [(''module_name'', m), (''name'', n), (''obj_type'', t), (''dominated_size'', s)]))"
  by (simp add: repr_obj_def startswith_def dict_getitem_def JSONSerializable_get_value_def
      py_dict_def)

section \<open>The codec\<close>

lemma get_value_entries:
  assumes "\<And>e. e \<in> set es \<Longrightarrow> reads_literal rt (entry_data e)"
  shows "Record_get_value rt (PList (map entry_obj es)) = Inr (PList (map entry_data es))"
proof -
  let ?f = "\<lambda>item. case item of
      PObj RecordEntryC d \<Rightarrow> bind_res (repr_obj rt JSONSerializable_get_value d) (rt_eval rt)
    | _ \<Rightarrow> Inr item"
  have "map_res ?f (map entry_obj es) = Inr (map entry_data es)"
    using assms
  proof (induction es)
    case Nil
    then show ?case by simp
  next
    case (Cons e es)
    have "?f (entry_obj e) = Inr (entry_data e)"
      using Cons.prems [of e]
      by (simp add: entry_obj_eq repr_entry reads_literal_def entry_data_def)
    with Cons show ?case by simp
  qed
  then show ?thesis by (simp add: Record_get_value_def)
qed

lemma encode_snapshot:
  assumes "\<And>e. e \<in> set es \<Longrightarrow> reads_literal rt (entry_data e)"
    and "reads_literal rt (snapshot_data es)"
  shows "EncodeJSON rt (snapshot_obj es) = rt_dumps rt (snapshot_data es)"
  using assms(2)
  by (simp add: EncodeJSON_def snapshot_obj_def Record_init_def setattr_def repr_obj_def
      startswith_def dict_getitem_def get_value_def get_value_entries [OF assms(1)]
      py_dict_def snapshot_data_def reads_literal_def)

lemma make_args_entry:
  "make_args (entry_data e) =
     Inr [(''module_name'', PStr (entry_module_name e)), (''name'', PStr (entry_name e)),
          (''obj_type'', PStr (entry_obj_type e)),
          (''dominated_size'', PInt (entry_dominated_size e))]"
  by (simp add: make_args_def entry_data_def str_pairs_def str_of_text_def ascii_names
      dict_getitem_def py_dict_def)

lemma new_entry: "bind_res (make_args (entry_data e)) (new_obj RecordEntryC) = Inr (entry_obj e)"
  by (simp add: make_args_entry new_obj_def bind_kwargs_def dict_getitem_def entry_obj_def)

lemma make_value_entries:
  "Record_make_value (PList (map entry_data es)) = Inr (PList (map entry_obj es))"
proof -
  have "map_res (\<lambda>item. bind_res (make_args item) (new_obj RecordEntryC)) (map entry_data es)
      = Inr (map entry_obj es)"
    by (induction es) (simp_all add: new_entry)
  then show ?thesis by (simp add: Record_make_value_def)
qed

lemma decode_snapshot:
  assumes "rt_loads rt json = Some (snapshot_data es)"
  shows "FromJSON rt RecordC json = Inr (snapshot_obj es)"
  using assms
  by (simp add: FromJSON_def snapshot_data_def str_pairs_def str_of_text_def ascii_names
      dict_getitem_def make_value_def make_value_entries py_dict_def new_obj_def
      bind_kwargs_def snapshot_obj_def)

text \<open>
  C1. Decoding the encoding of a snapshot gives the snapshot back: the same entries, in
  the same order, with the same field values. The entries \<open>es\<close> are any list of entries
  with string fields and an integer size. The runtime is asked to read back the literal that
  \<^verbatim>\<open>__repr__\<close> prints for each entry and for the snapshot, and the JSON document that
  \<^verbatim>\<open>dumps\<close> writes for the snapshot.
\<close>

theorem decode_encode_roundtrip:
  assumes "\<forall>e\<in>set es. reads_literal rt (entry_data e)"
    and "reads_literal rt (snapshot_data es)"
    and "reads_json rt (snapshot_data es)"
  shows "bind_res (EncodeJSON rt (snapshot_obj es)) (FromJSON rt RecordC) = Inr (snapshot_obj es)"
proof -
  from assms(3) obtain json where
    dumps: "rt_dumps rt (snapshot_data es) = Inr json" and
    loads: "rt_loads rt json = Some (snapshot_data es)"
    by (auto simp: reads_json_def split: sum.splits)
  have "EncodeJSON rt (snapshot_obj es) = Inr json"
    using encode_snapshot [of es rt] assms(1,2) dumps by simp
  then show ?thesis
    using decode_snapshot [OF loads] by simp
qed

theorem decode_encode_roundtrip_witness:
  "reads_literal example_runtime (entry_data entry_m1)
   \<and> reads_literal example_runtime (entry_data entry_m2)
   \<and> reads_literal example_runtime (snapshot_data [entry_m1, entry_m2])
   \<and> reads_json example_runtime (snapshot_data [entry_m1, entry_m2])
   \<and> bind_res (EncodeJSON example_runtime (snapshot_obj [entry_m1, entry_m2]))
        (FromJSON example_runtime RecordC) = Inr (snapshot_obj [entry_m1, entry_m2])"
proof -
  note defs = example_runtime_def table_runtime_def entry_data_def entry_m1_def entry_m2_def
    snapshot_data_def
  have entries: "\<forall>e\<in>set [entry_m1, entry_m2]. reads_literal example_runtime (entry_data e)"
    by (simp add: reads_literal_def defs)
  have literal: "reads_literal example_runtime (snapshot_data [entry_m1, entry_m2])"
    by (simp add: reads_literal_def defs)
  have json: "reads_json example_runtime (snapshot_data [entry_m1, entry_m2])"
    by (simp add: reads_json_def defs)
  show ?thesis
    using entries literal json decode_encode_roundtrip [OF entries literal json] by simp
qed

section \<open>Retrieval\<close>

lemma map_res_cong:
  "(\<And>x. x \<in> set xs \<Longrightarrow> f x = g x) \<Longrightarrow> map_res f xs = map_res g xs"
  by (induction xs) (simp_all split: sum.splits)

lemma map_res_all_Inr:
  "(\<And>x. x \<in> set xs \<Longrightarrow> f x = Inr (g x)) \<Longrightarrow> map_res f xs = Inr (map g xs)"
  by (induction xs) simp_all

lemma map_res_first_Inl:
  "(\<And>x. x \<in> set xs \<Longrightarrow> \<exists>y. f x = Inr y) \<Longrightarrow> f z = Inl e \<Longrightarrow> map_res f (xs @ z # zs) = Inl e"
proof (induction xs)
  case Nil
  then show ?case by simp
next
  case (Cons x xs)
  from Cons.prems(1) [of x] obtain y where "f x = Inr y" by auto
  moreover have "map_res f (xs @ z # zs) = Inl e"
    using Cons by simp
  ultimately show ?case by simp
qed

lemma map_of_dict_set: "map_of (dict_set d k v) = (map_of d)(k \<mapsto> v)"
  by (induction d k v rule: dict_set.induct) auto

lemma map_of_foldl_dict_set:
  "map_of (foldl (\<lambda>d kv. dict_set d (fst kv) (snd kv)) d pairs) = map_of (rev pairs @ d)"
proof (induction pairs arbitrary: d)
  case Nil
  then show ?case by simp
next
  case (Cons p pairs)
  show ?case
    by (simp add: Cons.IH map_of_dict_set map_add_def fun_eq_iff split: option.splits)
qed

lemma map_of_py_dict: "map_of (py_dict pairs) = map_of (rev pairs)"
  by (simp add: py_dict_def map_of_foldl_dict_set)

lemma map_of_present:
  "map_of (rev (List.map_filter (\<lambda>k. map_option (Pair k) (g k)) keys)) k
     = (if k \<in> set keys then g k else None)"
proof (induction keys)
  case Nil
  then show ?case by (simp add: List.map_filter_simps)
next
  case (Cons a keys)
  then show ?case
    by (cases "g a") (auto simp: List.map_filter_simps map_add_def split: option.splits)
qed

lemma get_multi_lookup:
  "map_of (fst (memcache_get_multi keys p c)) k
     = (if k \<in> set keys then store c (p @ k) else None)"
  by (simp add: memcache_get_multi_def map_of_py_dict map_of_present)

text \<open>
  With an integer counter that is not 0, \<^verbatim>\<open>get_raw_records\<close> makes one single-key and one
  multi-key read, and looks every key it asked for up in the answer.
\<close>

lemma get_raw_records_int:
  assumes "store c (INDEX_KEY cfg) = Some (CInt n)" and "n \<noteq> 0"
  shows "get_raw_records cfg limit offset c =
     (map_res (\<lambda>k. case store c (RECORD_PREFIX cfg @ k) of
                      None \<Rightarrow> Inl (KeyError k) | Some v \<Rightarrow> Inr v)
        (map (\<lambda>i. str_int (n - i)) [offset..min limit n - 1]),
      c\<lparr>calls := calls c @ [Get (INDEX_KEY cfg),
          Get_multi (map (\<lambda>i. str_int (n - i)) [offset..min limit n - 1]) (RECORD_PREFIX cfg)]\<rparr>)"
proof -
  let ?keys = "map (\<lambda>i. str_int (n - i)) [offset..min limit n - 1]"
  let ?c1 = "c\<lparr>calls := calls c @ [Get (INDEX_KEY cfg)]\<rparr>"
  have lim: "(if n < limit then n else limit) = min limit n"
    by (simp add: min_def)
  obtain records c2 where gm: "memcache_get_multi ?keys (RECORD_PREFIX cfg) ?c1 = (records, c2)"
    by (cases "memcache_get_multi ?keys (RECORD_PREFIX cfg) ?c1")
  have look: "map_res (dict_getitem records) ?keys
      = map_res (\<lambda>k. case store c (RECORD_PREFIX cfg @ k) of
                        None \<Rightarrow> Inl (KeyError k) | Some v \<Rightarrow> Inr v) ?keys"
    using get_multi_lookup [of ?keys "RECORD_PREFIX cfg" ?c1]
    by (intro map_res_cong) (simp add: dict_getitem_def gm)
  have c2: "c2 = c\<lparr>calls := calls c @ [Get (INDEX_KEY cfg),
          Get_multi ?keys (RECORD_PREFIX cfg)]\<rparr>"
    using gm by (simp add: memcache_get_multi_def)
  show ?thesis
    using assms look c2 gm
    by (simp add: get_raw_records_def memcache_get_def lim Let_def)
qed

text \<open>
  C9. On a cache in which the counter key is absent, \<^verbatim>\<open>get_raw_records\<close> returns the
  empty list for every limit and offset, and the only request it has made to the cache is
  the single-key read of the counter: there is no multi-key read.
\<close>

theorem get_raw_records_no_counter:
  assumes "store c (INDEX_KEY cfg) = None"
  shows "get_raw_records cfg limit offset c
           = (Inr [], c\<lparr>calls := calls c @ [Get (INDEX_KEY cfg)]\<rparr>)"
  using assms by (simp add: get_raw_records_def memcache_get_def)

theorem get_raw_records_no_counter_witness:
  "store empty_cache (INDEX_KEY example_config) = None
   \<and> get_raw_records example_config 100 0 empty_cache
       = (Inr [], empty_cache\<lparr>calls := [Get ''apptrace_index'']\<rparr>)"
proof -
  have absent: "store empty_cache (INDEX_KEY example_config) = None"
    by (simp add: empty_cache_def)
  show ?thesis
    using absent get_raw_records_no_counter [OF absent, of 100 0]
    by (simp add: empty_cache_def example_config_def)
qed

subsection \<open>Decimal keys\<close>

lemma digit_char_code: "d < 10 \<Longrightarrow> of_char (digit_char d) = (48 + d :: nat)"
proof -
  assume "d < 10"
  then have "d \<in> {0, 1, 2, 3, 4, 5, 6, 7, 8, 9}" by auto
  then show ?thesis by (auto simp: digit_char_def)
qed

lemma digits_value_str_nat: "digits_value (str_nat n) = n"
proof (induction n rule: str_nat.induct)
  case (1 n)
  show ?case
  proof (cases "n < 10")
    case True
    then show ?thesis
      by (subst str_nat.simps) (simp add: digits_value_def digit_char_code)
  next
    case False
    then have "digits_value (str_nat (n div 10)) = n div 10" using 1 by simp
    then show ?thesis using False
      by (subst str_nat.simps) (simp add: digits_value_def digit_char_code)
  qed
qed

lemma str_nat_inj: "str_nat m = str_nat n \<Longrightarrow> m = n"
  by (metis digits_value_str_nat)

lemma str_nat_not_empty: "str_nat n \<noteq> []"
  by (subst str_nat.simps) simp

lemma hd_str_nat: "hd (str_nat n) \<noteq> CHR ''-''"
proof (induction n rule: str_nat.induct)
  case (1 n)
  show ?case
  proof (cases "n < 10")
    case True
    then have "n \<in> {0, 1, 2, 3, 4, 5, 6, 7, 8, 9}" by auto
    then show ?thesis
      by (subst str_nat.simps) (auto simp: digit_char_def)
  next
    case False
    then show ?thesis using 1 str_nat_not_empty [of "n div 10"]
      by (subst str_nat.simps) simp
  qed
qed

lemma map_res_map: "map_res f (map g xs) = map_res (f \<circ> g) xs"
  by (induction xs) (simp_all split: sum.splits)

lemma str_int_eq: "str_int i = str_int j \<Longrightarrow> i = j"
proof -
  assume eq: "str_int i = str_int j"
  have neg: "i < 0 \<longleftrightarrow> j < 0"
    using eq hd_str_nat [of "nat i"] hd_str_nat [of "nat j"]
    by (auto simp: str_int_def split: if_splits) (metis list.sel(1))+
  show ?thesis
  proof (cases "i < 0")
    case True
    with neg eq have "str_nat (nat (- i)) = str_nat (nat (- j))" by (simp add: str_int_def)
    then have "nat (- i) = nat (- j)" by (rule str_nat_inj)
    with True neg show ?thesis by simp
  next
    case False
    with neg eq have "str_nat (nat i) = str_nat (nat j)" by (simp add: str_int_def)
    then have "nat i = nat j" by (rule str_nat_inj)
    with False neg show ?thesis by simp
  qed
qed

lemma str_int_inj: "inj str_int"
  by (rule injI) (rule str_int_eq)

lemma str_small: "str_int 1 = ''1''" "str_int 2 = ''2''"
  by (simp_all add: str_int_def str_nat.simps digit_char_def)

lemma upto_small: "[0..(1::int)] = [0, 1]" "[1..(1::int)] = [1]"
  by (simp_all add: upto.simps)

subsection \<open>The candidate keys\<close>

text \<open>
  C2. With the counter present and at least 1, \<^verbatim>\<open>get_raw_records\<close> asks the cache, in
  one multi-key read, for exactly the keys of the indices \<open>curr_index - i\<close> for \<open>i\<close> from
  \<open>offset\<close> to \<open>min limit curr_index - 1\<close>, in that order. Their number is
  \<open>min limit curr_index - offset\<close> (none when \<open>offset\<close> reaches the effective limit), and the
  key at position \<open>j\<close> is the one of index \<open>curr_index - (offset + j)\<close>.
\<close>

theorem get_raw_records_candidates:
  assumes "store c (INDEX_KEY cfg) = Some (CInt curr_index)" and "1 \<le> curr_index"
  shows "\<exists>keys. calls (snd (get_raw_records cfg limit offset c))
             = calls c @ [Get (INDEX_KEY cfg), Get_multi keys (RECORD_PREFIX cfg)]
         \<and> keys = map (\<lambda>i. str_int (curr_index - i)) [offset..min limit curr_index - 1]
         \<and> length keys = nat (min limit curr_index - offset)
         \<and> (\<forall>j<length keys. keys ! j = str_int (curr_index - (offset + int j)))"
proof -
  have "curr_index \<noteq> 0" using assms(2) by simp
  from get_raw_records_int [OF assms(1) this, of limit offset]
  have calls: "calls (snd (get_raw_records cfg limit offset c))
      = calls c @ [Get (INDEX_KEY cfg),
          Get_multi (map (\<lambda>i. str_int (curr_index - i)) [offset..min limit curr_index - 1])
            (RECORD_PREFIX cfg)]"
    by simp
  have nth: "[offset..min limit curr_index - 1] ! j = offset + int j"
    if "j < nat (min limit curr_index - offset)" for j
    using that by (intro nth_upto) linarith
  show ?thesis
    using calls nth by (simp add: length_upto)
qed

theorem get_raw_records_candidates_witness:
  "store cache_of_two (INDEX_KEY example_config) = Some (CInt 2)
   \<and> (1::int) \<le> 2
   \<and> calls (snd (get_raw_records example_config 100 1 cache_of_two))
       = [Get ''apptrace_index'', Get_multi [''1''] ''apptrace_record_'']"
proof -
  have counter: "store cache_of_two (INDEX_KEY example_config) = Some (CInt 2)"
    by (simp add: cache_of_two_def example_config_def)
  have "calls cache_of_two = []" by (simp add: cache_of_two_def)
  then show ?thesis
    using counter get_raw_records_candidates [OF counter, of 100 1]
    by (simp add: str_small upto_small example_config_def)
qed

text \<open>
  C10. With the counter at least 1 and a non-negative offset, every index whose key
  \<^verbatim>\<open>get_raw_records\<close> requests is positive: it lies between
  \<open>curr_index - min limit curr_index + 1\<close> and \<open>curr_index - offset\<close>, and the key of
  0 or of a negative index is never among the requested keys.
\<close>

theorem candidate_indices_positive:
  assumes "store c (INDEX_KEY cfg) = Some (CInt curr_index)" and "1 \<le> curr_index" and "0 \<le> offset"
  shows "calls (snd (get_raw_records cfg limit offset c))
           = calls c @ [Get (INDEX_KEY cfg),
               Get_multi (map str_int (map (\<lambda>i. curr_index - i) [offset..min limit curr_index - 1]))
                 (RECORD_PREFIX cfg)]
         \<and> (\<forall>k\<in>set (map (\<lambda>i. curr_index - i) [offset..min limit curr_index - 1]).
               1 \<le> k \<and> curr_index - min limit curr_index + 1 \<le> k \<and> k \<le> curr_index - offset)
         \<and> (\<forall>k\<le>0. str_int k \<notin> set (map str_int (map (\<lambda>i. curr_index - i) [offset..min limit curr_index - 1])))"
proof -
  have "curr_index \<noteq> 0" using assms(2) by simp
  from get_raw_records_int [OF assms(1) this, of limit offset]
  have calls: "calls (snd (get_raw_records cfg limit offset c))
           = calls c @ [Get (INDEX_KEY cfg),
               Get_multi (map str_int (map (\<lambda>i. curr_index - i) [offset..min limit curr_index - 1]))
                 (RECORD_PREFIX cfg)]"
    by (simp add: comp_def)
  have range: "\<forall>k\<in>set (map (\<lambda>i. curr_index - i) [offset..min limit curr_index - 1]).
               1 \<le> k \<and> curr_index - min limit curr_index + 1 \<le> k \<and> k \<le> curr_index - offset"
    using assms(2,3) by auto
  have "\<forall>k\<le>0. str_int k \<notin> set (map str_int (map (\<lambda>i. curr_index - i) [offset..min limit curr_index - 1]))"
  proof (intro allI impI notI)
    fix k :: int
    assume "k \<le> 0"
      and "str_int k \<in> set (map str_int (map (\<lambda>i. curr_index - i) [offset..min limit curr_index - 1]))"
    then have "k \<in> set (map (\<lambda>i. curr_index - i) [offset..min limit curr_index - 1])"
      using inj_image_mem_iff [OF str_int_inj] by (metis set_map)
    with range \<open>k \<le> 0\<close> show False by auto
  qed
  with calls range show ?thesis by blast
qed

theorem candidate_indices_positive_witness:
  "store cache_of_two (INDEX_KEY example_config) = Some (CInt 2)
   \<and> (1::int) \<le> 2 \<and> (0::int) \<le> 0
   \<and> calls (snd (get_raw_records example_config 100 0 cache_of_two))
       = [Get ''apptrace_index'', Get_multi [''2'', ''1''] ''apptrace_record_'']"
proof -
  have counter: "store cache_of_two (INDEX_KEY example_config) = Some (CInt 2)"
    by (simp add: cache_of_two_def example_config_def)
  have "calls cache_of_two = []" by (simp add: cache_of_two_def)
  then show ?thesis
    using counter candidate_indices_positive [OF counter, of 0 100]
    by (simp add: str_small upto_small example_config_def)
qed

subsection \<open>Missing records\<close>

text \<open>
  C5, as amended. A candidate whose key the cache does not hold is not passed over:
  \<^verbatim>\<open>records[key]\<close> raises KeyError for the first such key, in candidate order, and the
  exception ends the call, so no value is returned, not even those of the candidates that
  are present. When every candidate is present the values are returned in candidate order.
\<close>

theorem get_raw_records_missing_key:
  assumes "store c (INDEX_KEY cfg) = Some (CInt curr_index)" and "curr_index \<noteq> 0"
    and "keys = map (\<lambda>i. str_int (curr_index - i)) [offset..min limit curr_index - 1]"
  shows "((\<forall>k\<in>set keys. store c (RECORD_PREFIX cfg @ k) \<noteq> None) \<longrightarrow>
            fst (get_raw_records cfg limit offset c)
              = Inr (map (\<lambda>k. the (store c (RECORD_PREFIX cfg @ k))) keys))
       \<and> (\<forall>ks k ks'. keys = ks @ k # ks'
              \<and> (\<forall>k'\<in>set ks. store c (RECORD_PREFIX cfg @ k') \<noteq> None)
              \<and> store c (RECORD_PREFIX cfg @ k) = None \<longrightarrow>
            fst (get_raw_records cfg limit offset c) = Inl (KeyError k))"
proof -
  let ?f = "\<lambda>k. case store c (RECORD_PREFIX cfg @ k) of
                      None \<Rightarrow> Inl (KeyError k) | Some v \<Rightarrow> Inr v"
  have r: "fst (get_raw_records cfg limit offset c) = map_res ?f keys"
    using get_raw_records_int [OF assms(1,2), of limit offset] assms(3) by simp
  have present: "fst (get_raw_records cfg limit offset c)
              = Inr (map (\<lambda>k. the (store c (RECORD_PREFIX cfg @ k))) keys)"
    if "\<forall>k\<in>set keys. store c (RECORD_PREFIX cfg @ k) \<noteq> None"
    unfolding r using that by (intro map_res_all_Inr) auto
  have absent: "fst (get_raw_records cfg limit offset c) = Inl (KeyError k)"
    if "keys = ks @ k # ks'" "\<forall>k'\<in>set ks. store c (RECORD_PREFIX cfg @ k') \<noteq> None"
      "store c (RECORD_PREFIX cfg @ k) = None" for ks k ks'
  proof -
    have "map_res ?f (ks @ k # ks') = Inl (KeyError k)"
      using that(2,3) by (intro map_res_first_Inl) auto
    then show ?thesis using r that(1) by simp
  qed
  from present absent show ?thesis by blast
qed

theorem get_raw_records_missing_key_witness:
  "fst (get_raw_records example_config 100 0 cache_with_gap) = Inl (KeyError ''1'')
   \<and> fst (get_raw_records example_config 100 0 cache_of_two)
       = Inr [CStr ''{\"entries\": [{\"module_name\": \"m1\", \"name\": \"a\", \"obj_type\": \"int\", \"dominated_size\": 10}, {\"module_name\": \"m2\", \"name\": \"b\", \"obj_type\": \"list\", \"dominated_size\": 20}]}'',
              CStr ''{\"entries\": []}'']"
proof -
  have keys: "[''2'', ''1''] = map (\<lambda>i. str_int (2 - i)) [0..min 100 2 - 1]"
    by (simp add: str_small upto_small)
  have nz: "(2::int) \<noteq> 0"
    by simp
  have gap: "store cache_with_gap (INDEX_KEY example_config) = Some (CInt 2)"
    by (simp add: cache_with_gap_def example_config_def)
  have two: "store cache_of_two (INDEX_KEY example_config) = Some (CInt 2)"
    by (simp add: cache_of_two_def example_config_def)
  note absent = get_raw_records_missing_key [OF gap nz keys, THEN conjunct2, rule_format,
      of "[''2'']" "''1''" "[]"]
  note present = get_raw_records_missing_key [OF two nz keys, THEN conjunct1, rule_format]
  have "fst (get_raw_records example_config 100 0 cache_with_gap) = Inl (KeyError ''1'')"
    by (rule absent) (simp add: cache_with_gap_def example_config_def)
  moreover have "fst (get_raw_records example_config 100 0 cache_of_two)
       = Inr (map (\<lambda>k. the (store cache_of_two (RECORD_PREFIX example_config @ k))) [''2'', ''1''])"
    by (rule present) (auto simp: cache_of_two_def example_config_def)
  ultimately show ?thesis
    by (simp add: cache_of_two_def example_config_def)
qed

text \<open>
  The claim as stated fails: with the counter at 2, record 2 present and record 1 evicted,
  the call raises KeyError for key 1 and the value of the present record 2 is not returned.
\<close>

theorem get_raw_records_missing_key_counterexample:
  "store cache_with_gap (RECORD_PREFIX example_config @ ''2'') = Some (CStr ''{\"entries\": []}'')
   \<and> fst (get_raw_records example_config 100 0 cache_with_gap) = Inl (KeyError ''1'')"
  by (simp add: get_raw_records_def memcache_get_def memcache_get_multi_def py_dict_def
      List.map_filter_simps dict_getitem_def str_small upto_small example_config_def
      cache_with_gap_def)

subsection \<open>Order of the decoded records\<close>

text \<open>
  C4. When the counter is \<open>K\<close> and every index from 1 to \<open>K\<close> holds the text of a
  snapshot, \<^verbatim>\<open>get_records\<close> with limit \<open>K\<close> and offset 0 returns exactly \<open>K\<close>
  decoded snapshots, the most recent index first: position \<open>j\<close> holds the snapshot stored
  at index \<open>K - j\<close>.
\<close>

theorem get_records_most_recent_first:
  assumes "1 \<le> K" and "store c (INDEX_KEY cfg) = Some (CInt K)"
    and "\<forall>i. 1 \<le> i \<and> i \<le> K \<longrightarrow>
           store c (RECORD_PREFIX cfg @ str_int i) = Some (CStr (texts i))
           \<and> FromJSON rt RecordC (texts i) = Inr (snaps i)"
  shows "\<exists>rs. fst (get_records rt cfg K 0 c) = Inr rs \<and> length rs = nat K
           \<and> (\<forall>j<nat K. rs ! j = snaps (K - int j))"
proof -
  let ?keys = "map (\<lambda>i. str_int (K - i)) [0..K - 1]"
  have "K \<noteq> 0" using assms(1) by simp
  from get_raw_records_int [OF assms(2) this, of K 0]
  have raw: "get_raw_records cfg K 0 c =
     (map_res (\<lambda>k. case store c (RECORD_PREFIX cfg @ k) of
                      None \<Rightarrow> Inl (KeyError k) | Some v \<Rightarrow> Inr v) ?keys,
      c\<lparr>calls := calls c @ [Get (INDEX_KEY cfg), Get_multi ?keys (RECORD_PREFIX cfg)]\<rparr>)"
    by simp
  have "map_res (\<lambda>k. case store c (RECORD_PREFIX cfg @ k) of
                      None \<Rightarrow> Inl (KeyError k) | Some v \<Rightarrow> Inr v) ?keys
        = Inr (map (\<lambda>i. CStr (texts (K - i))) [0..K - 1])"
  proof -
    have "map_res ((\<lambda>k. case store c (RECORD_PREFIX cfg @ k) of
                      None \<Rightarrow> Inl (KeyError k) | Some v \<Rightarrow> Inr v) \<circ> (\<lambda>i. str_int (K - i))) [0..K - 1]
       = Inr (map (\<lambda>i. CStr (texts (K - i))) [0..K - 1])"
      using assms(3) by (intro map_res_all_Inr) auto
    then show ?thesis by (simp add: map_res_map)
  qed
  with raw have raw': "get_raw_records cfg K 0 c = (Inr (map (\<lambda>i. CStr (texts (K - i))) [0..K - 1]),
      c\<lparr>calls := calls c @ [Get (INDEX_KEY cfg), Get_multi ?keys (RECORD_PREFIX cfg)]\<rparr>)"
    by simp
  have dec: "map_res (\<lambda>r. case r of CStr json \<Rightarrow> FromJSON rt RecordC json | CInt _ \<Rightarrow> Inl TypeError)
      (map (\<lambda>i. CStr (texts (K - i))) [0..K - 1]) = Inr (map (\<lambda>i. snaps (K - i)) [0..K - 1])"
  proof -
    have "map_res ((\<lambda>r. case r of CStr json \<Rightarrow> FromJSON rt RecordC json | CInt _ \<Rightarrow> Inl TypeError) \<circ> (\<lambda>i. CStr (texts (K - i)))) [0..K - 1]
       = Inr (map (\<lambda>i. snaps (K - i)) [0..K - 1])"
      using assms(3) by (intro map_res_all_Inr) auto
    then show ?thesis by (simp add: map_res_map)
  qed
  have res: "fst (get_records rt cfg K 0 c) = Inr (map (\<lambda>i. snaps (K - i)) [0..K - 1])"
    by (simp add: get_records_def raw' dec)
  have len: "length (map (\<lambda>i. snaps (K - i)) [0..K - 1]) = nat K"
    using assms(1) by (simp add: length_upto)
  have nth: "(map (\<lambda>i. snaps (K - i)) [0..K - 1]) ! j = snaps (K - int j)" if "j < nat K" for j
    using that by simp
  from res len nth show ?thesis by blast
qed

theorem get_records_most_recent_first_witness:
  "fst (get_records example_runtime example_config 2 0 cache_of_two)
     = Inr [snapshot_obj [entry_m1, entry_m2], snapshot_obj []]"
proof -
  define texts :: "int \<Rightarrow> string" where "texts i = (if i = 1 then ''{\"entries\": []}''
     else ''{\"entries\": [{\"module_name\": \"m1\", \"name\": \"a\", \"obj_type\": \"int\", \"dominated_size\": 10}, {\"module_name\": \"m2\", \"name\": \"b\", \"obj_type\": \"list\", \"dominated_size\": 20}]}'')" for i
  define snaps :: "int \<Rightarrow> pyval" where
    "snaps i = (if i = 1 then snapshot_obj [] else snapshot_obj [entry_m1, entry_m2])" for i
  have one: "(1::int) \<le> 2"
    by simp
  have counter: "store cache_of_two (INDEX_KEY example_config) = Some (CInt 2)"
    by (simp add: cache_of_two_def example_config_def)
  have d1: "FromJSON example_runtime RecordC (texts 1) = Inr (snapshot_obj [])"
    by (rule decode_snapshot) (simp add: texts_def example_runtime_def table_runtime_def)
  have d2: "FromJSON example_runtime RecordC (texts 2) = Inr (snapshot_obj [entry_m1, entry_m2])"
    by (rule decode_snapshot) (simp add: texts_def example_runtime_def table_runtime_def)
  have s1: "store cache_of_two (RECORD_PREFIX example_config @ str_int 1) = Some (CStr (texts 1))"
    by (simp add: texts_def cache_of_two_def example_config_def str_small)
  have s2: "store cache_of_two (RECORD_PREFIX example_config @ str_int 2) = Some (CStr (texts 2))"
    by (simp add: texts_def cache_of_two_def example_config_def str_small)
  have stored: "\<forall>i. 1 \<le> i \<and> i \<le> 2 \<longrightarrow>
           store cache_of_two (RECORD_PREFIX example_config @ str_int i) = Some (CStr (texts i))
           \<and> FromJSON example_runtime RecordC (texts i) = Inr (snaps i)"
  proof (intro allI impI)
    fix i :: int
    assume "1 \<le> i \<and> i \<le> 2"
    then consider "i = 1" | "i = 2"
      by linarith
    then show "store cache_of_two (RECORD_PREFIX example_config @ str_int i) = Some (CStr (texts i))
           \<and> FromJSON example_runtime RecordC (texts i) = Inr (snaps i)"
    proof cases
      case 1
      then show ?thesis using d1 s1 by (simp add: snaps_def)
    next
      case 2
      then show ?thesis using d2 s2 by (simp add: snaps_def)
    qed
  qed
  from get_records_most_recent_first [OF one counter stored]
  obtain rs where rs: "fst (get_records example_runtime example_config 2 0 cache_of_two) = Inr rs"
    "length rs = 2" "\<forall>j<2. rs ! j = snaps (2 - int j)"
    by auto
  from rs(3) have "rs ! 0 = snapshot_obj [entry_m1, entry_m2]" "rs ! 1 = snapshot_obj []"
    by (simp_all add: snaps_def)
  with rs(2) have "rs = [snapshot_obj [entry_m1, entry_m2], snapshot_obj []]"
    by (cases rs; cases "tl rs") auto
  with rs(1) show ?thesis by simp
qed

section \<open>Recording\<close>

subsection \<open>The scan of the modules\<close>

lemma append_entry_record:
  "append_entry (Record_init (PList xs)) e = Inr (Record_init (PList (xs @ [e])))"
  by (simp add: append_entry_def Record_init_def setattr_def getattr_def dict_getitem_def)

lemma scan_keys_record:
  assumes "set keys \<subseteq> set (map fst md)"
    and "\<forall>key\<in>set keys. \<forall>obj. map_of md key = Some obj \<longrightarrow> class_name obj \<noteq> None"
  shows "scan_keys name md keys (Record_init (PList xs))
     = Inr (Record_init (PList (xs @
         map (\<lambda>key. RecordEntry_init (PStr name) (PStr key)
                (PStr (the (class_name (the (map_of md key)))))
                (PInt (domisize (the (map_of md key))))) keys)))"
  using assms
proof (induction keys arbitrary: xs)
  case Nil
  then show ?case by simp
next
  case (Cons key keys)
  from Cons.prems(1) have "key \<in> set (map fst md)" by simp
  then obtain obj where obj: "map_of md key = Some obj"
    by (metis map_of_eq_None_iff not_None_eq set_map)
  with Cons.prems(2) obtain obj_type where cls: "class_name obj = Some obj_type"
    by auto
  from Cons.prems have "set keys \<subseteq> set (map fst md)"
    and "\<forall>key\<in>set keys. \<forall>obj. map_of md key = Some obj \<longrightarrow> class_name obj \<noteq> None"
    by simp_all
  from Cons.IH [OF this] obj cls show ?case
    by (simp add: dict_getitem_def make_entry_def append_entry_record)
qed

text \<open>
  The scan on a well-formed state of \<^verbatim>\<open>sys.modules\<close>: every configured name that is
  there is bound to a module, and every attribute the scan visits has a \<^verbatim>\<open>__class__\<close>.
\<close>

lemma scan_modules_record:
  assumes "\<forall>name\<in>set names. map_of sys name \<noteq> Some None"
    and "\<forall>name\<in>set names. \<forall>md key obj.
           map_of sys name = Some (Some md) \<and> key \<notin> set (IGNORE_NAMES cfg)
             \<and> map_of md key = Some obj \<longrightarrow> class_name obj \<noteq> None"
  shows "scan_modules cfg sys names (Record_init (PList xs))
     = Inr (Record_init (PList (xs @ concat (map (module_entries cfg sys) names))))"
  using assms
proof (induction names arbitrary: xs)
  case Nil
  then show ?case by simp
next
  case (Cons name names)
  from Cons.prems have rest: "\<forall>name\<in>set names. map_of sys name \<noteq> Some None"
    "\<forall>name\<in>set names. \<forall>md key obj.
           map_of sys name = Some (Some md) \<and> key \<notin> set (IGNORE_NAMES cfg)
             \<and> map_of md key = Some obj \<longrightarrow> class_name obj \<noteq> None"
    by (meson list.set_intros(2))+
  note IH = Cons.IH [OF rest]
  show ?case
  proof (cases "map_of sys name")
    case None
    then show ?thesis using IH by (simp add: module_entries_def)
  next
    case (Some entry)
    with Cons.prems(1) obtain md where md: "map_of sys name = Some (Some md)"
      by (cases entry) auto
    let ?keys = "sorted_list_of_set (set (map fst md) - set (IGNORE_NAMES cfg))"
    have sub: "set ?keys \<subseteq> set (map fst md)"
      by auto
    have cls: "\<forall>key\<in>set ?keys. \<forall>obj. map_of md key = Some obj \<longrightarrow> class_name obj \<noteq> None"
      using Cons.prems(2) md by auto
    from scan_keys_record [OF sub cls] md IH show ?thesis
      by (simp add: module_entries_def)
  qed
qed

text \<open>
  On such a state the scan produces the entries of the configured modules in the
  configured order: none for a name that is not in \<^verbatim>\<open>sys.modules\<close>, and for a loaded
  module one instance of RecordEntry for each name of its \<^verbatim>\<open>__dict__\<close> outside the
  ignore-set, the names without repetition in ascending lexicographic order, each instance
  with the four attributes that the constructor sets.
\<close>

lemma scan_modules_entries:
  assumes "\<forall>name\<in>set (get_modules cfg). map_of sys name \<noteq> Some None"
    and "\<forall>name\<in>set (get_modules cfg). \<forall>md key obj.
           map_of sys name = Some (Some md) \<and> key \<notin> set (IGNORE_NAMES cfg)
             \<and> map_of md key = Some obj \<longrightarrow> class_name obj \<noteq> None"
  shows "\<exists>entries.
     scan_modules cfg sys (get_modules cfg) (Record_init (PList []))
       = Inr (PObj RecordC [(''_k_entries'', PList (concat (map entries (get_modules cfg))))])
     \<and> (\<forall>name. map_of sys name = None \<longrightarrow> entries name = [])
     \<and> (\<forall>name md. map_of sys name = Some (Some md) \<longrightarrow>
          (\<exists>keys. sorted keys \<and> distinct keys
             \<and> set keys = set (map fst md) - set (IGNORE_NAMES cfg)
             \<and> entries name =
                 map (\<lambda>key. PObj RecordEntryC
                        [(''_k_module_name'', PStr name), (''_k_name'', PStr key),
                         (''_k_obj_type'', PStr (the (class_name (the (map_of md key))))),
                         (''_k_dominated_size'', PInt (domisize (the (map_of md key))))])
                   keys))"
proof -
  have scan: "scan_modules cfg sys (get_modules cfg) (Record_init (PList []))
       = Inr (PObj RecordC
           [(''_k_entries'', PList (concat (map (module_entries cfg sys) (get_modules cfg))))])"
    using scan_modules_record [OF assms, of "[]"]
    by (simp add: Record_init_def setattr_def)
  have absent: "\<forall>name. map_of sys name = None \<longrightarrow> module_entries cfg sys name = []"
    by (simp add: module_entries_def)
  have loaded: "\<exists>keys. sorted keys \<and> distinct keys
             \<and> set keys = set (map fst md) - set (IGNORE_NAMES cfg)
             \<and> module_entries cfg sys name =
                 map (\<lambda>key. PObj RecordEntryC
                        [(''_k_module_name'', PStr name), (''_k_name'', PStr key),
                         (''_k_obj_type'', PStr (the (class_name (the (map_of md key))))),
                         (''_k_dominated_size'', PInt (domisize (the (map_of md key))))])
                   keys"
    if "map_of sys name = Some (Some md)" for name md
    by (rule exI [of _ "sorted_list_of_set (set (map fst md) - set (IGNORE_NAMES cfg))"])
      (simp add: module_entries_def that RecordEntry_init_def setattr_def)
  show ?thesis
    by (rule exI [of _ "module_entries cfg sys"]) (use scan absent loaded in blast)
qed

text \<open>The spec's scan example, evaluated: two entries, \<open>X\<close> before \<open>Y\<close>.\<close>

lemma scan_example:
  "scan_modules example_config example_modules (get_modules example_config)
     (Record_init (PList []))
   = Inr (PObj RecordC [(''_k_entries'', PList
       [PObj RecordEntryC
          [(''_k_module_name'', PStr ''m''), (''_k_name'', PStr ''X''),
           (''_k_obj_type'', PStr ''Foo''), (''_k_dominated_size'', PInt 100)],
        PObj RecordEntryC
          [(''_k_module_name'', PStr ''m''), (''_k_name'', PStr ''Y''),
           (''_k_obj_type'', PStr ''Bar''), (''_k_dominated_size'', PInt 50)]])])"
  by code_simp

text \<open>
  C7. The claim fails on the code in two cases that the scan misses. With an old-style
  class among the attributes of a loaded module, \<^verbatim>\<open>obj.__class__\<close> raises AttributeError:
  \<^verbatim>\<open>trace\<close> raises, produces no entry, not even for the attributes \<open>X\<close> and \<open>Y\<close>, and
  leaves the cache as it was. With None in \<^verbatim>\<open>sys.modules\<close> under a configured name, the
  name passes the test that skips the modules that are not loaded, and
  \<^verbatim>\<open>sys.modules[name].__dict__\<close> raises AttributeError.
\<close>

theorem trace_raises_on_old_style_class:
  "scan_modules example_config old_style_modules (get_modules example_config)
     (Record_init (PList [])) = Inl AttributeError
   \<and> trace example_runtime example_config old_style_modules empty_cache
       = (Inl AttributeError, empty_cache)
   \<and> scan_modules example_config placeholder_modules (get_modules example_config)
       (Record_init (PList [])) = Inl AttributeError
   \<and> trace example_runtime example_config placeholder_modules empty_cache
       = (Inl AttributeError, empty_cache)"
proof -
  have old: "scan_modules example_config old_style_modules (get_modules example_config)
     (Record_init (PList [])) = Inl AttributeError"
    by code_simp
  have none: "scan_modules example_config placeholder_modules (get_modules example_config)
     (Record_init (PList [])) = Inl AttributeError"
    by code_simp
  show ?thesis
    using old none by (simp add: trace_def)
qed

subsection \<open>The index\<close>

lemma add_keeps: "store c k' = Some x \<Longrightarrow> store (snd (memcache_add k v c)) k' = Some x"
  by (auto simp: memcache_add_def split: option.splits)

lemma add_occupied:
  "store c k = Some x \<Longrightarrow> memcache_add k v c = (False, c\<lparr>calls := calls c @ [Add k v]\<rparr>)"
  by (simp add: memcache_add_def)

lemma allocate_first:
  "store c (INDEX_KEY cfg) = None \<Longrightarrow>
     allocate_index cfg c = (Some 1, c\<lparr>store := (store c)(INDEX_KEY cfg \<mapsto> CInt 1),
        calls := calls c @ [Add (INDEX_KEY cfg) (CInt 1)]\<rparr>)"
  by (simp add: allocate_index_def memcache_add_def)

lemma allocate_next:
  "store c (INDEX_KEY cfg) = Some (CInt n) \<Longrightarrow>
     allocate_index cfg c = (Some (n + 1), c\<lparr>store := (store c)(INDEX_KEY cfg \<mapsto> CInt (n + 1)),
        calls := calls c @ [Add (INDEX_KEY cfg) (CInt 1), Incr (INDEX_KEY cfg)]\<rparr>)"
  by (simp add: allocate_index_def memcache_add_def memcache_incr_def)

text \<open>A call whose scan raises leaves the cache as it was.\<close>

lemma trace_no_allocation:
  "\<not> reaches_allocation cfg sys \<Longrightarrow> snd (trace rt cfg sys c) = c"
  by (simp add: reaches_allocation_def trace_def split: sum.splits)

text \<open>
  A call that reaches the allocation allocates the index of its allocation step, and the
  store of the record leaves the counter as the allocation set it.
\<close>

lemma trace_cases:
  assumes "scan_modules cfg sys (get_modules cfg) (Record_init (PList [])) = Inr rec"
  shows "trace rt cfg sys c =
     (case EncodeJSON rt rec of
        Inl e \<Rightarrow> (Inl e, snd (allocate_index cfg c))
      | Inr json \<Rightarrow> (Inr (), snd (memcache_add
            (RECORD_PREFIX cfg @ str_index (fst (allocate_index cfg c))) (CStr json)
            (snd (allocate_index cfg c)))))"
proof -
  obtain index c1 where alloc: "allocate_index cfg c = (index, c1)"
    by (cases "allocate_index cfg c")
  show ?thesis
    using assms alloc by (simp add: trace_def split: sum.splits)
qed

lemma trace_counter:
  assumes "reaches_allocation cfg sys"
    and "store (snd (allocate_index cfg c)) (INDEX_KEY cfg) = Some x"
  shows "store (snd (trace rt cfg sys c)) (INDEX_KEY cfg) = Some x"
proof -
  from assms(1) obtain rec where
    "scan_modules cfg sys (get_modules cfg) (Record_init (PList [])) = Inr rec"
    by (auto simp: reaches_allocation_def split: sum.splits)
  from trace_cases [OF this] assms(2) show ?thesis
    by (simp add: add_keeps split: sum.splits)
qed

lemma traces_from_counter:
  "store c (INDEX_KEY cfg) = Some (CInt n) \<Longrightarrow>
     fst (traces rt cfg syss c)
       = map (\<lambda>i. Some (n + 1 + int i)) [0..<length (filter (reaches_allocation cfg) syss)]"
proof (induction syss arbitrary: c n)
  case Nil
  then show ?case by simp
next
  case (Cons sys syss)
  show ?case
  proof (cases "reaches_allocation cfg sys")
    case False
    then have "snd (trace rt cfg sys c) = c"
      by (rule trace_no_allocation)
    with Cons.IH [OF Cons.prems] False show ?thesis
      by (simp add: case_prod_unfold)
  next
    case True
    have alloc: "fst (allocate_index cfg c) = Some (n + 1)"
      "store (snd (allocate_index cfg c)) (INDEX_KEY cfg) = Some (CInt (n + 1))"
      using allocate_next [OF Cons.prems] by simp_all
    have "store (snd (trace rt cfg sys c)) (INDEX_KEY cfg) = Some (CInt (n + 1))"
      using True alloc(2) by (rule trace_counter)
    from Cons.IH [OF this]
    have rest: "fst (traces rt cfg syss (snd (trace rt cfg sys c)))
        = map (\<lambda>i. Some (n + 1 + 1 + int i))
            [0..<length (filter (reaches_allocation cfg) syss)]" .
    have "fst (traces rt cfg (sys # syss) c)
        = Some (n + 1) # map (\<lambda>i. Some (n + 1 + 1 + int i))
            [0..<length (filter (reaches_allocation cfg) syss)]"
      using alloc(1) rest True by (simp add: case_prod_unfold)
    also have "\<dots> = map (\<lambda>i. Some (n + 1 + int i))
        [0..<length (filter (reaches_allocation cfg) (sys # syss))]"
      using True by (simp add: map_upt_Suc add.commute add.left_commute del: upt_Suc)
    finally show ?thesis .
  qed
qed

lemma traces_from_absent:
  "store c (INDEX_KEY cfg) = None \<Longrightarrow>
     fst (traces rt cfg syss c)
       = map (\<lambda>i. Some (1 + int i)) [0..<length (filter (reaches_allocation cfg) syss)]"
proof (induction syss arbitrary: c)
  case Nil
  then show ?case by simp
next
  case (Cons sys syss)
  show ?case
  proof (cases "reaches_allocation cfg sys")
    case False
    then have "snd (trace rt cfg sys c) = c"
      by (rule trace_no_allocation)
    with Cons.IH [OF Cons.prems] False show ?thesis
      by (simp add: case_prod_unfold)
  next
    case True
    have alloc: "fst (allocate_index cfg c) = Some 1"
      "store (snd (allocate_index cfg c)) (INDEX_KEY cfg) = Some (CInt 1)"
      using allocate_first [OF Cons.prems] by simp_all
    have "store (snd (trace rt cfg sys c)) (INDEX_KEY cfg) = Some (CInt 1)"
      using True alloc(2) by (rule trace_counter)
    from traces_from_counter [OF this]
    have "fst (traces rt cfg syss (snd (trace rt cfg sys c)))
        = map (\<lambda>i. Some (1 + 1 + int i)) [0..<length (filter (reaches_allocation cfg) syss)]" .
    then have "fst (traces rt cfg (sys # syss) c)
        = Some 1 # map (\<lambda>i. Some (1 + 1 + int i))
            [0..<length (filter (reaches_allocation cfg) syss)]"
      using alloc(1) True by (simp add: case_prod_unfold)
    also have "\<dots> = map (\<lambda>i. Some (1 + int i))
        [0..<length (filter (reaches_allocation cfg) (sys # syss))]"
      using True by (simp add: map_upt_Suc add.commute add.left_commute del: upt_Suc)
    finally show ?thesis .
  qed
qed

text \<open>
  C3. On a cache with no counter key, the first allocation returns 1, and consecutive
  calls of \<^verbatim>\<open>trace\<close> allocate exactly the indices 1, 2, ..., N, with no repeat and no
  gap, whatever the modules and the runtime are; N counts the calls that reach the
  allocation, which are all of them when no scan raises. The cache of the model evicts
  nothing and its primitives are atomic.
\<close>

theorem traces_allocate_consecutive:
  assumes "store c (INDEX_KEY cfg) = None"
  shows "fst (allocate_index cfg c) = Some 1
     \<and> fst (traces rt cfg syss c)
         = map (\<lambda>i. Some (int i)) [1..<Suc (length (filter (reaches_allocation cfg) syss))]
     \<and> ((\<forall>sys\<in>set syss. reaches_allocation cfg sys) \<longrightarrow>
          fst (traces rt cfg syss c) = map (\<lambda>i. Some (int i)) [1..<Suc (length syss)])"
proof -
  let ?n = "length (filter (reaches_allocation cfg) syss)"
  have first: "fst (allocate_index cfg c) = Some 1"
    using allocate_first [OF assms] by simp
  have "fst (traces rt cfg syss c) = map (\<lambda>i. Some (1 + int i)) [0..<?n]"
    using assms by (rule traces_from_absent)
  also have "\<dots> = map (\<lambda>i. Some (int i)) (map Suc [0..<?n])"
    by (simp add: comp_def add.commute)
  also have "map Suc [0..<?n] = [1..<Suc ?n]"
    using map_Suc_upt [of 0 ?n] by simp
  finally have general: "fst (traces rt cfg syss c) = map (\<lambda>i. Some (int i)) [1..<Suc ?n]" .
  have "filter (reaches_allocation cfg) syss = syss"
    if "\<forall>sys\<in>set syss. reaches_allocation cfg sys"
    using that by (simp add: filter_id_conv)
  with general have "(\<forall>sys\<in>set syss. reaches_allocation cfg sys) \<longrightarrow>
          fst (traces rt cfg syss c) = map (\<lambda>i. Some (int i)) [1..<Suc (length syss)]"
    by auto
  with first general show ?thesis by blast
qed

theorem traces_allocate_consecutive_witness:
  "store empty_cache (INDEX_KEY example_config) = None
   \<and> fst (traces example_runtime example_config [example_modules, [], example_modules] empty_cache)
       = [Some 1, Some 2, Some 3]
   \<and> fst (traces example_runtime example_config
            [example_modules, old_style_modules, [], example_modules] empty_cache)
       = [Some 1, Some 2, Some 3]"
proof -
  have absent: "store empty_cache (INDEX_KEY example_config) = None"
    by (simp add: empty_cache_def)
  have reach: "reaches_allocation example_config example_modules"
    "reaches_allocation example_config []"
    "\<not> reaches_allocation example_config old_style_modules"
    unfolding reaches_allocation_def by code_simp+
  have all: "\<forall>sys\<in>set [example_modules, [], example_modules].
      reaches_allocation example_config sys"
    using reach by simp
  have three: "[1..<Suc (length [example_modules, [], example_modules])] = [1, 2, 3]"
    by (simp add: upt_conv_Cons)
  have count: "[1..<Suc (length (filter (reaches_allocation example_config)
      [example_modules, old_style_modules, [], example_modules]))] = [1, 2, 3]"
    using reach by (simp add: upt_conv_Cons)
  note thm1 = traces_allocate_consecutive [OF absent,
      of example_runtime "[example_modules, [], example_modules]"]
  note thm2 = traces_allocate_consecutive [OF absent,
      of example_runtime "[example_modules, old_style_modules, [], example_modules]"]
  have "fst (traces example_runtime example_config [example_modules, [], example_modules]
      empty_cache) = [Some 1, Some 2, Some 3]"
    using thm1 all three by simp
  moreover have "fst (traces example_runtime example_config
      [example_modules, old_style_modules, [], example_modules] empty_cache)
      = [Some 1, Some 2, Some 3]"
    using thm2 count by simp
  ultimately show ?thesis using absent by simp
qed

subsection \<open>Write once\<close>

text \<open>
  C8. When the key of the allocated index is occupied, the store of the new snapshot is
  dropped: the cache holds after \<^verbatim>\<open>trace\<close> exactly what it held once the index was
  allocated, so the bytes under that key are unchanged, and when the record can be encoded
  \<^verbatim>\<open>trace\<close> returns None to its caller, without an error, after one attempted
  \<^verbatim>\<open>add\<close>.
\<close>

theorem trace_store_write_once:
  assumes "allocate_index cfg c = (index, c1)"
    and "store c1 (RECORD_PREFIX cfg @ str_index index) = Some v"
    and "scan_modules cfg sys (get_modules cfg) (Record_init (PList [])) = Inr rec"
  shows "store (snd (trace rt cfg sys c)) = store c1
     \<and> (\<forall>json. EncodeJSON rt rec = Inr json \<longrightarrow>
          trace rt cfg sys c
            = (Inr (), c1\<lparr>calls := calls c1 @ [Add (RECORD_PREFIX cfg @ str_index index) (CStr json)]\<rparr>))"
proof (cases "EncodeJSON rt rec")
  case (Inl e)
  then show ?thesis using assms by (simp add: trace_def)
next
  case (Inr json)
  then show ?thesis using assms add_occupied [OF assms(2)] by (simp add: trace_def)
qed

theorem trace_store_write_once_witness:
  "trace example_runtime example_config [] cache_after_reset
     = (Inr (), \<lparr>store = [''apptrace_record_1'' \<mapsto> CStr ''old'', ''apptrace_index'' \<mapsto> CInt 1],
          calls = [Add ''apptrace_index'' (CInt 1),
                   Add ''apptrace_record_1'' (CStr ''{\"entries\": []}'')]\<rparr>)"
proof -
  let ?c1 = "\<lparr>store = [''apptrace_record_1'' \<mapsto> CStr ''old'', ''apptrace_index'' \<mapsto> CInt 1],
          calls = [Add ''apptrace_index'' (CInt 1)]\<rparr>"
  have alloc: "allocate_index example_config cache_after_reset = (Some 1, ?c1)"
    by (simp add: allocate_index_def memcache_add_def example_config_def cache_after_reset_def)
  have occupied: "store ?c1 (RECORD_PREFIX example_config @ str_index (Some 1)) = Some (CStr ''old'')"
    by (simp add: example_config_def str_index_def str_small)
  have scan: "scan_modules example_config [] (get_modules example_config) (Record_init (PList []))
      = Inr (Record_init (PList []))"
    by (simp add: example_config_def)
  have encode: "EncodeJSON example_runtime (Record_init (PList [])) = Inr ''{\"entries\": []}''"
    by (simp add: EncodeJSON_def Record_init_def setattr_def repr_obj_def startswith_def
        dict_getitem_def get_value_def Record_get_value_def py_dict_def example_runtime_def
        table_runtime_def snapshot_data_def)
  from trace_store_write_once [OF alloc occupied scan, of example_runtime] encode
  show ?thesis
    by (simp add: example_config_def str_index_def str_small)
qed

section \<open>Decoding errors\<close>

lemma map_res_error: "map_res f xs = Inl e \<Longrightarrow> \<exists>x\<in>set xs. f x = Inl e"
  by (induction xs) (auto split: sum.splits)

lemma bind_res_error: "bind_res r f = Inl e \<Longrightarrow> r = Inl e \<or> (\<exists>x. r = Inr x \<and> f x = Inl e)"
  by (cases r) simp_all

lemma map_res_some_Inl:
  "(\<And>x. x \<in> set xs \<Longrightarrow> f x = Inr (g x) \<or> f x = Inl e) \<Longrightarrow> \<exists>x\<in>set xs. f x = Inl e
     \<Longrightarrow> map_res f xs = Inl e"
proof (induction xs)
  case Nil
  then show ?case by simp
next
  case (Cons x xs)
  show ?case
  proof (cases "f x")
    case (Inl e')
    with Cons.prems(1) [of x] show ?thesis by simp
  next
    case (Inr y)
    with Cons.prems have "\<exists>x\<in>set xs. f x = Inl e" by auto
    with Cons have "map_res f xs = Inl e" by simp
    with Inr show ?thesis by simp
  qed
qed

lemma dict_getitem_error: "dict_getitem d k = Inl e \<Longrightarrow> e = KeyError k"
  by (simp add: dict_getitem_def split: option.splits)

lemma seq_getitem_error: "seq_getitem xs i = Inl e \<Longrightarrow> e = IndexError"
  by (simp add: seq_getitem_def split: if_splits)

lemma str_of_text_error: "str_of_text s = Inl e \<Longrightarrow> e = UnicodeEncodeError"
  by (simp add: str_of_text_def split: if_splits)

lemma list_pair_error:
  assumes "list_pair f xs k = Inl e" and "\<And>v. f v \<noteq> Inl ValueError"
  shows "e \<noteq> ValueError"
  using assms
  by (cases k) (auto dest!: bind_res_error dest: seq_getitem_error str_of_text_error)

lemma str_pairs_error:
  assumes "str_pairs f data = Inl e" and "\<And>v. f v \<noteq> Inl ValueError"
  shows "e \<noteq> ValueError"
proof (cases data)
  case (PDict d)
  with assms(1) obtain k :: string where
    "bind_res (str_of_text k) (\<lambda>s. bind_res (dict_getitem d k) (\<lambda>v.
       bind_res (f v) (\<lambda>v'. Inr (s, v')))) = Inl e"
    by (auto simp: str_pairs_def dest!: map_res_error)
  then show ?thesis
    using assms(2)
    by (auto dest!: bind_res_error dest: dict_getitem_error str_of_text_error)
next
  case (PList xs)
  with assms(1) obtain k where "list_pair f xs k = Inl e"
    by (auto simp: str_pairs_def dest!: map_res_error)
  then show ?thesis using assms(2) by (rule list_pair_error)
next
  case (PStr s)
  with assms(1) show ?thesis
    by (auto simp: str_pairs_def dest!: map_res_error bind_res_error dest: str_of_text_error)
qed (use assms(1) in \<open>auto simp: str_pairs_def\<close>)

lemma bind_kwargs_error: "bind_kwargs params kwargs = Inl e \<Longrightarrow> e \<noteq> ValueError"
  by (auto simp: bind_kwargs_def split: if_splits dest!: map_res_error dest: dict_getitem_error)

lemma new_obj_error: "new_obj C kwargs = Inl e \<Longrightarrow> e \<noteq> ValueError"
  by (cases C)
    (auto simp: new_obj_def dest!: bind_res_error dest: bind_kwargs_error split: list.splits)

lemma make_args_error: "make_args args = Inl e \<Longrightarrow> e \<noteq> ValueError"
  by (auto simp: make_args_def dest!: bind_res_error dest: str_pairs_error)

lemma make_value_error: "make_value C v = Inl e \<Longrightarrow> e \<noteq> ValueError"
proof (cases C)
  case RecordEntryC
  then show "make_value C v = Inl e \<Longrightarrow> e \<noteq> ValueError"
    by (simp add: make_value_def JSONSerializable_make_value_def)
next
  case RecordC
  assume "make_value C v = Inl e"
  with RecordC have "Record_make_value v = Inl e" by (simp add: make_value_def)
  then show "e \<noteq> ValueError"
    by (cases v)
      (auto simp: Record_make_value_def dest!: bind_res_error map_res_error
        dest: make_args_error new_obj_error)
qed

lemma FromJSON_ValueError: "FromJSON rt C json = Inl ValueError \<longleftrightarrow> rt_loads rt json = None"
proof (cases "rt_loads rt json")
  case None
  then show ?thesis by (simp add: FromJSON_def)
next
  case (Some data)
  have "FromJSON rt C json \<noteq> Inl ValueError"
  proof
    assume "FromJSON rt C json = Inl ValueError"
    with Some have "bind_res (str_pairs (make_value C) data) (\<lambda>pairs. new_obj C (py_dict pairs))
        = Inl ValueError"
      by (simp add: FromJSON_def)
    then show False
      using str_pairs_error [of "make_value C" data ValueError] make_value_error [of C]
        new_obj_error [of C _ ValueError]
      by (auto dest!: bind_res_error)
  qed
  with Some show ?thesis by simp
qed

lemma keys_py_dict: "set (map fst (py_dict pairs)) = set (map fst pairs)"
proof -
  have "dom (map_of (py_dict pairs)) = dom (map_of (rev pairs))"
    by (simp add: map_of_py_dict)
  then show ?thesis
    by (simp add: dom_map_of_conv_image_fst)
qed

lemma map_of_py_dict_keys:
  "map_of (py_dict (map (\<lambda>k. (k, g k)) ks)) k = (if k \<in> set ks then Some (g k) else None)"
proof -
  have "map_of (map (\<lambda>k. (k, g k)) (rev ks)) k = (if k \<in> set ks then Some (g k) else None)"
    by (simp add: map_of_map_restrict restrict_map_def)
  then show ?thesis
    by (simp add: map_of_py_dict rev_map)
qed

lemma field_of_key: "k \<in> set (map fst d) \<Longrightarrow> dict_getitem d k = Inr (field d k)"
proof -
  assume "k \<in> set (map fst d)"
  then obtain v where "map_of d k = Some v"
    by (metis map_of_eq_None_iff not_None_eq set_map)
  then show ?thesis by (simp add: dict_getitem_def field_def)
qed

lemma make_args_object:
  assumes "list_all is_ascii (map fst d)"
  shows "make_args (PDict d) = Inr (py_dict (map (\<lambda>k. (k, field d k)) (map fst d)))"
proof -
  have "map_res (\<lambda>k. bind_res (str_of_text k) (\<lambda>s. bind_res (dict_getitem d k) (\<lambda>v.
           bind_res (Inr v) (\<lambda>v'. Inr (s, v'))))) (map fst d)
      = Inr (map (\<lambda>k. (k, field d k)) (map fst d))"
  proof (rule map_res_all_Inr)
    fix k assume k: "k \<in> set (map fst d)"
    with assms have "is_ascii k" by (auto simp: list_all_iff)
    with k show "bind_res (str_of_text k) (\<lambda>s. bind_res (dict_getitem d k) (\<lambda>v.
           bind_res (Inr v) (\<lambda>v'. Inr (s, v')))) = Inr (k, field d k)"
      by (simp add: str_of_text_def field_of_key)
  qed
  then show ?thesis by (simp add: make_args_def str_pairs_def)
qed

lemma new_entry_of_object:
  assumes "list_all is_ascii (map fst d)"
  shows "bind_res (make_args (PDict d)) (new_obj RecordEntryC)
     = (if has_exact_fields (PDict d) then Inr (entry_of_item (PDict d)) else Inl TypeError)"
proof -
  define kwargs where "kwargs = py_dict (map (\<lambda>k. (k, field d k)) (map fst d))"
  have args: "make_args (PDict d) = Inr kwargs"
    unfolding kwargs_def by (rule make_args_object [OF assms])
  have "map fst (map (\<lambda>k. (k, field d k)) (map fst d)) = map fst d"
    by (simp add: comp_def)
  then have keys: "set (map fst kwargs) = set (map fst d)"
    unfolding kwargs_def
    using keys_py_dict [of "map (\<lambda>k. (k, field d k)) (map fst d)"] by simp
  have get: "dict_getitem kwargs k = Inr (field d k)" if "k \<in> set (map fst d)" for k
    unfolding kwargs_def
    using that map_of_py_dict_keys [of "field d" "map fst d" k] by (simp add: dict_getitem_def)
  define ok where "ok \<longleftrightarrow>
      list_all (\<lambda>p. p \<in> set (map fst kwargs)) [''module_name'', ''name'', ''obj_type'', ''dominated_size'']
      \<and> list_all (\<lambda>k. k \<in> set [''module_name'', ''name'', ''obj_type'', ''dominated_size''])
           (map fst kwargs)"
  have exact: "has_exact_fields (PDict d) \<longleftrightarrow> ok"
    unfolding ok_def keys has_exact_fields_def list_all_iff by auto
  have bind: "bind_kwargs [''module_name'', ''name'', ''obj_type'', ''dominated_size''] kwargs
      = (if ok then map_res (dict_getitem kwargs)
            [''module_name'', ''name'', ''obj_type'', ''dominated_size'']
         else Inl TypeError)"
    unfolding bind_kwargs_def ok_def by (rule refl)
  show ?thesis
  proof (cases "has_exact_fields (PDict d)")
    case True
    then have "''module_name'' \<in> set (map fst d)" "''name'' \<in> set (map fst d)"
      "''obj_type'' \<in> set (map fst d)" "''dominated_size'' \<in> set (map fst d)"
      by (simp_all add: has_exact_fields_def)
    then have "map_res (dict_getitem kwargs) [''module_name'', ''name'', ''obj_type'', ''dominated_size'']
        = Inr [field d ''module_name'', field d ''name'', field d ''obj_type'', field d ''dominated_size'']"
      by (simp add: get)
    then show ?thesis
      using True exact by (simp add: args new_obj_def bind entry_of_item_def)
  next
    case False
    then show ?thesis
      using exact by (simp add: args new_obj_def bind)
  qed
qed

lemma make_value_objects:
  assumes "list_all is_object items"
  shows "Record_make_value (PList items)
     = (if list_all has_exact_fields items then Inr (PList (map entry_of_item items))
        else Inl TypeError)"
proof -
  let ?f = "\<lambda>item. bind_res (make_args item) (new_obj RecordEntryC)"
  have each: "?f item = (if has_exact_fields item then Inr (entry_of_item item) else Inl TypeError)"
    if "item \<in> set items" for item
  proof -
    from that assms have "is_object item" by (simp add: list_all_iff)
    then obtain d where "item = PDict d" "list_all is_ascii (map fst d)"
      by (cases item) (simp_all add: is_object_def)
    then show ?thesis using new_entry_of_object by simp
  qed
  show ?thesis
  proof (cases "list_all has_exact_fields items")
    case True
    then have "map_res ?f items = Inr (map entry_of_item items)"
      using each by (intro map_res_all_Inr) (simp add: list_all_iff)
    with True show ?thesis by (simp add: Record_make_value_def)
  next
    case False
    then have "\<exists>item\<in>set items. ?f item = Inl TypeError"
      using each by (auto simp: list_all_iff)
    moreover have "?f item = Inr (entry_of_item item) \<or> ?f item = Inl TypeError"
      if "item \<in> set items" for item
      using each [OF that] by simp
    ultimately have "map_res ?f items = Inl TypeError"
      by (intro map_res_some_Inl) auto
    with False show ?thesis by (simp add: Record_make_value_def)
  qed
qed

text \<open>
  C6, as amended. \<^verbatim>\<open>FromJSON\<close> fails with the ValueError of the parser exactly when
  the text is not valid JSON. On a document whose only member is a list \<open>entries\<close> of
  JSON objects, it succeeds exactly when every entry has the four fields and no other, and
  the entries it builds carry the values of the fields whatever their types; otherwise, so
  when an entry lacks a required field, it fails with TypeError. The types of the fields
  are never checked.
\<close>

theorem FromJSON_errors:
  "(FromJSON rt RecordC json = Inl ValueError \<longleftrightarrow> rt_loads rt json = None)
   \<and> (\<forall>items. rt_loads rt json = Some (PDict [(''entries'', PList items)])
          \<and> list_all is_object items \<longrightarrow>
        FromJSON rt RecordC json
          = (if list_all has_exact_fields items
             then Inr (Record_init (PList (map entry_of_item items)))
             else Inl TypeError))"
proof (intro conjI allI impI)
  show "FromJSON rt RecordC json = Inl ValueError \<longleftrightarrow> rt_loads rt json = None"
    by (rule FromJSON_ValueError)
next
  fix items
  assume "rt_loads rt json = Some (PDict [(''entries'', PList items)]) \<and> list_all is_object items"
  then show "FromJSON rt RecordC json
          = (if list_all has_exact_fields items
             then Inr (Record_init (PList (map entry_of_item items)))
             else Inl TypeError)"
    by (simp add: FromJSON_def str_pairs_def str_of_text_def ascii_names dict_getitem_def
        make_value_def make_value_objects py_dict_def new_obj_def bind_kwargs_def)
qed

theorem FromJSON_errors_witness:
  "rt_loads codec_runtime ''entries'' = None
   \<and> FromJSON codec_runtime RecordC ''entries'' = Inl ValueError
   \<and> FromJSON codec_runtime RecordC missing_text = Inl TypeError
   \<and> FromJSON codec_runtime RecordC mistyped_text
       = Inr (Record_init (PList
           [RecordEntry_init (PStr ''m1'') (PStr ''a'') (PStr ''int'') (PStr ''big'')]))"
proof -
  let ?missing = "PDict [(''module_name'', PStr ''m1''), (''name'', PStr ''a''),
       (''obj_type'', PStr ''int'')]"
  let ?mistyped = "PDict [(''module_name'', PStr ''m1''), (''name'', PStr ''a''),
       (''obj_type'', PStr ''int''), (''dominated_size'', PStr ''big'')]"
  have invalid: "rt_loads codec_runtime ''entries'' = None"
    by (simp add: codec_runtime_def table_runtime_def mistyped_text_def missing_text_def
        extra_text_def)
  have l1: "rt_loads codec_runtime missing_text = Some (PDict [(''entries'', PList [?missing])])
      \<and> list_all is_object [?missing]"
    by (simp add: codec_runtime_def table_runtime_def mistyped_text_def missing_text_def
        extra_text_def missing_doc_def is_object_def ascii_names)
  have l2: "rt_loads codec_runtime mistyped_text = Some (PDict [(''entries'', PList [?mistyped])])
      \<and> list_all is_object [?mistyped]"
    by (simp add: codec_runtime_def table_runtime_def mistyped_text_def missing_text_def
        extra_text_def mistyped_doc_def is_object_def ascii_names)
  have "FromJSON codec_runtime RecordC ''entries'' = Inl ValueError"
    using FromJSON_errors [of codec_runtime "''entries''", THEN conjunct1] invalid by simp
  moreover have "FromJSON codec_runtime RecordC missing_text = Inl TypeError"
    using FromJSON_errors [of codec_runtime missing_text, THEN conjunct2, rule_format, OF l1]
    by (simp add: has_exact_fields_def)
  moreover have "FromJSON codec_runtime RecordC mistyped_text
       = Inr (Record_init (PList
           [RecordEntry_init (PStr ''m1'') (PStr ''a'') (PStr ''int'') (PStr ''big'')]))"
    using FromJSON_errors [of codec_runtime mistyped_text, THEN conjunct2, rule_format, OF l2]
    by (simp add: has_exact_fields_def entry_of_item_def field_def)
  ultimately show ?thesis using invalid by simp
qed

text \<open>
  The claim as stated fails in both directions: an entry whose size is a string does not
  conform to the schema and is decoded without an error, and an entry with the four
  well-typed fields and a fifth one conforms and is refused with TypeError.
\<close>

theorem FromJSON_schema_counterexample:
  "rt_loads codec_runtime mistyped_text = Some mistyped_doc
   \<and> \<not> schema_conforming mistyped_doc
   \<and> FromJSON codec_runtime RecordC mistyped_text
       = Inr (Record_init (PList
           [RecordEntry_init (PStr ''m1'') (PStr ''a'') (PStr ''int'') (PStr ''big'')]))
   \<and> rt_loads codec_runtime extra_text = Some extra_doc
   \<and> schema_conforming extra_doc
   \<and> FromJSON codec_runtime RecordC extra_text = Inl TypeError"
proof -
  have loads: "rt_loads codec_runtime mistyped_text = Some mistyped_doc"
    "rt_loads codec_runtime extra_text = Some extra_doc"
    by (simp_all add: codec_runtime_def table_runtime_def mistyped_text_def missing_text_def
        extra_text_def)
  have conf: "\<not> schema_conforming mistyped_doc" "schema_conforming extra_doc"
    by (simp_all add: schema_conforming_def entry_conforms_def field_is_def is_str_def is_int_def
        mistyped_doc_def extra_doc_def)
  have "FromJSON codec_runtime RecordC mistyped_text
       = Inr (Record_init (PList
           [RecordEntry_init (PStr ''m1'') (PStr ''a'') (PStr ''int'') (PStr ''big'')]))"
    by (simp add: FromJSON_def loads mistyped_doc_def str_pairs_def str_of_text_def ascii_names dict_getitem_def make_value_def Record_make_value_def make_args_def
        py_dict_def new_obj_def bind_kwargs_def)
  moreover have "FromJSON codec_runtime RecordC extra_text = Inl TypeError"
    by (simp add: FromJSON_def loads extra_doc_def str_pairs_def str_of_text_def ascii_names dict_getitem_def make_value_def Record_make_value_def make_args_def
        py_dict_def new_obj_def bind_kwargs_def)
  ultimately show ?thesis using loads conf by simp
qed

end
